theory Spec2Isabelle
  imports Main "HOL-Library.AList"
begin

section \<open>Python values\<close>

text \<open>
  The synchronisation core of \<^verbatim>\<open>odnoklassniki_api/models.py\<close> works on loosely typed
  values decoded from the remote API and on attributes of model instances.  A value is
  \<^verbatim>\<open>None\<close>, a boolean, an integer, a text, a list, a dictionary with text keys, a
  \<^verbatim>\<open>datetime\<close>, or a model instance (class name and attribute dictionary).  Floating
  point numbers are not represented.  A dictionary is an association list; it is read
  with \<^const>\<open>map_of\<close>, written with \<^const>\<open>AList.update\<close> and iterated over its distinct keys.
\<close>

record tzinfo =
  zone :: string
  utcoffset :: int

record datetime =
  year :: nat
  month :: nat
  day :: nat
  hour :: nat
  minute :: nat
  second :: nat
  tz :: "tzinfo option"

datatype pyval =
    PNone
  | PBool bool
  | PInt int
  | PStr string
  | PList "pyval list"
  | PDict "(string \<times> pyval) list"
  | PDateTime datetime
  | PObj string "(string \<times> pyval) list"

type_synonym pydict = "(string \<times> pyval) list"

text \<open>An instance is modelled by its attribute dictionary (\<^verbatim>\<open>__dict__\<close>).\<close>

type_synonym model_instance = pydict

datatype error =
    TypeError
  | ValueError
  | AttributeError
  | AssertionError
  | OverflowError
  | DoesNotExist
  | MultipleObjectsReturned
  | OdnoklassnikiContentError

text \<open>Truth value of a Python object, as tested by \<^verbatim>\<open>if value\<close> and \<^verbatim>\<open>and\<close>.\<close>

fun truthy :: "pyval \<Rightarrow> bool" where
  "truthy PNone = False"
| "truthy (PBool b) = b"
| "truthy (PInt i) = (i \<noteq> 0)"
| "truthy (PStr s) = (s \<noteq> [])"
| "truthy (PList xs) = (xs \<noteq> [])"
| "truthy (PDict d) = (d \<noteq> [])"
| "truthy (PDateTime d) = True"
| "truthy (PObj c d) = True"

text \<open>\<^verbatim>\<open>getattr(obj, name)\<close> raises \<^verbatim>\<open>AttributeError\<close> for a missing attribute.\<close>

definition getattr :: "model_instance \<Rightarrow> string \<Rightarrow> error + pyval" where
  "getattr obj name = (case map_of obj name of None \<Rightarrow> Inl AttributeError | Some v \<Rightarrow> Inr v)"

definition setattr :: "model_instance \<Rightarrow> string \<Rightarrow> pyval \<Rightarrow> model_instance" where
  "setattr obj name v = AList.update name v obj"

text \<open>\<^verbatim>\<open>d.items()\<close>: one pair for each key of the dictionary.\<close>

definition items :: "pydict \<Rightarrow> (string \<times> pyval) list" where
  "items d = AList.clearjunk d"


section \<open>Identity reconciler: \<^verbatim>\<open>OdnoklassnikiModel._substitute\<close>\<close>

text \<open>
  \<^verbatim>\<open>
  def _substitute(self, old_instance):
      self.pk = old_instance.pk
      for key, old_value in old_instance.__dict__.items():
          new_value = getattr(self, key)
          if old_value and (new_value is None or new_value == ''):
              setattr(self, key, old_value)
  \<close>
  The primary key is the attribute named \<open>pk\<close> (Django's \<^verbatim>\<open>_meta.pk.attname\<close>); the
  property \<^verbatim>\<open>pk\<close> reads and writes that attribute.  The function returns the updated
  \<^verbatim>\<open>self\<close>, or the error raised.
\<close>

fun substitute_loop :: "(string \<times> pyval) list \<Rightarrow> model_instance \<Rightarrow> error + model_instance" where
  "substitute_loop [] self = Inr self"
| "substitute_loop ((key, old_value) # rest) self =
     (case getattr self key of
        Inl e \<Rightarrow> Inl e
      | Inr new_value \<Rightarrow>
          if truthy old_value \<and> (new_value = PNone \<or> new_value = PStr [])
          then substitute_loop rest (setattr self key old_value)
          else substitute_loop rest self)"

definition substitute :: "string \<Rightarrow> model_instance \<Rightarrow> model_instance \<Rightarrow> error + model_instance" where
  "substitute pk self old_instance =
     (case getattr old_instance pk of
        Inl e \<Rightarrow> Inl e
      | Inr old_pk \<Rightarrow> substitute_loop (items old_instance) (setattr self pk old_pk))"


section \<open>Built-ins used by the parser\<close>

subsection \<open>\<^verbatim>\<open>int(value)\<close>\<close>

text \<open>
  \<^verbatim>\<open>int\<close> accepts an integer, a boolean, or a text made of optional surrounding white
  space, an optional sign and at least one decimal digit.  It raises \<^verbatim>\<open>ValueError\<close>
  for any other text and \<^verbatim>\<open>TypeError\<close> for the remaining kinds of value.
\<close>

definition is_space :: "char \<Rightarrow> bool" where
  "is_space c = (c \<in> set [CHR '' '', CHR 0x09, CHR 0x0A, CHR 0x0B, CHR 0x0C, CHR 0x0D])"

definition is_digit :: "char \<Rightarrow> bool" where
  "is_digit c = (c \<in> set ''0123456789'')"

definition strip :: "string \<Rightarrow> string" where
  "strip s = rev (dropWhile is_space (rev (dropWhile is_space s)))"

definition digits_value :: "string \<Rightarrow> int" where
  "digits_value s = foldl (\<lambda>acc c. 10 * acc + (of_char c - 48)) 0 s"

definition int_of_digits :: "string \<Rightarrow> error + int" where
  "int_of_digits s =
     (if s \<noteq> [] \<and> list_all is_digit s then Inr (digits_value s) else Inl ValueError)"

definition int_of_string :: "string \<Rightarrow> error + int" where
  "int_of_string s =
     (case strip s of
        [] \<Rightarrow> Inl ValueError
      | c # r \<Rightarrow>
          if c = CHR ''-'' then map_sum id uminus (int_of_digits r)
          else if c = CHR ''+'' then int_of_digits r
          else int_of_digits (c # r))"

fun py_int :: "pyval \<Rightarrow> error + int" where
  "py_int (PInt i) = Inr i"
| "py_int (PBool b) = Inr (if b then 1 else 0)"
| "py_int (PStr s) = int_of_string s"
| "py_int v = Inl TypeError"

text \<open>\<^verbatim>\<open>isinstance(value, int)\<close>: booleans are integers in Python.\<close>

fun is_int :: "pyval \<Rightarrow> bool" where
  "is_int (PInt i) = True"
| "is_int (PBool b) = True"
| "is_int v = False"

fun is_string :: "pyval \<Rightarrow> bool" where
  "is_string (PStr s) = True"
| "is_string v = False"

text \<open>Sequencing of steps that may raise.\<close>

definition bind :: "error + 'a \<Rightarrow> ('a \<Rightarrow> error + 'b) \<Rightarrow> error + 'b" where
  "bind m f = (case m of Inl e \<Rightarrow> Inl e | Inr x \<Rightarrow> f x)"


subsection \<open>\<^verbatim>\<open>dict(value)\<close>\<close>

text \<open>
  The result of \<^verbatim>\<open>dict(value)\<close> may have keys that are not texts, so it is a list of
  pairs of values with distinct first components.  A dictionary is copied; a list is
  read as a sequence of two-element sequences (a later pair replaces an earlier one
  with the same key); a text is a sequence of one-character texts, none of which has
  length two; anything else is not iterable.  An element that cannot be iterated or a
  key that cannot be hashed raises \<^verbatim>\<open>TypeError\<close>, an element of the wrong length
  raises \<^verbatim>\<open>ValueError\<close>, and the first offending element decides.
\<close>

definition dict_items :: "pydict \<Rightarrow> (pyval \<times> pyval) list" where
  "dict_items d = map (\<lambda>(k, v). (PStr k, v)) (items d)"

fun hashable :: "pyval \<Rightarrow> bool" where
  "hashable (PList xs) = False"
| "hashable (PDict d) = False"
| "hashable v = True"

fun pair_of :: "pyval \<Rightarrow> error + (pyval \<times> pyval)" where
  "pair_of (PList [k, v]) = (if hashable k then Inr (k, v) else Inl TypeError)"
| "pair_of (PList xs) = Inl ValueError"
| "pair_of (PStr [a, b]) = Inr (PStr [a], PStr [b])"
| "pair_of (PStr s) = Inl ValueError"
| "pair_of (PDict d) =
     (case items d of [(k1, v1), (k2, v2)] \<Rightarrow> Inr (PStr k1, PStr k2) | _ \<Rightarrow> Inl ValueError)"
| "pair_of v = Inl TypeError"

fun dict_of_pairs :: "(pyval \<times> pyval) list \<Rightarrow> pyval list \<Rightarrow> error + (pyval \<times> pyval) list" where
  "dict_of_pairs acc [] = Inr acc"
| "dict_of_pairs acc (x # xs) =
     (case pair_of x of
        Inl e \<Rightarrow> Inl e
      | Inr (k, v) \<Rightarrow> dict_of_pairs (AList.update k v acc) xs)"

fun py_dict :: "pyval \<Rightarrow> error + (pyval \<times> pyval) list" where
  "py_dict (PDict d) = Inr (dict_items d)"
| "py_dict (PList xs) = dict_of_pairs [] xs"
| "py_dict (PStr s) = (if s = [] then Inr [] else Inl ValueError)"
| "py_dict v = Inl TypeError"


subsection \<open>\<^verbatim>\<open>datetime\<close>\<close>

text \<open>
  The proleptic Gregorian calendar of Python's \<^verbatim>\<open>datetime\<close> module.  The constructor
  checks the ranges of its arguments and raises \<^verbatim>\<open>ValueError\<close> outside them; years
  run from 1 to 9999.
\<close>

definition utc :: tzinfo where
  "utc = \<lparr>zone = ''UTC'', utcoffset = 0\<rparr>"

definition is_leap :: "nat \<Rightarrow> bool" where
  "is_leap y = (y mod 4 = 0 \<and> (y mod 100 \<noteq> 0 \<or> y mod 400 = 0))"

definition days_in_year :: "nat \<Rightarrow> nat" where
  "days_in_year y = (if is_leap y then 366 else 365)"

definition days_in_month :: "nat \<Rightarrow> nat \<Rightarrow> nat" where
  "days_in_month y m =
     (if m = 2 then (if is_leap y then 29 else 28)
      else if m = 4 \<or> m = 6 \<or> m = 9 \<or> m = 11 then 30 else 31)"

definition datetime_new :: "int \<Rightarrow> int \<Rightarrow> int \<Rightarrow> int \<Rightarrow> int \<Rightarrow> int \<Rightarrow> error + datetime" where
  "datetime_new y m d hh mm ss =
     (if 1 \<le> y \<and> y \<le> 9999 \<and> 1 \<le> m \<and> m \<le> 12
         \<and> 1 \<le> d \<and> d \<le> int (days_in_month (nat y) (nat m))
         \<and> 0 \<le> hh \<and> hh \<le> 23 \<and> 0 \<le> mm \<and> mm \<le> 59 \<and> 0 \<le> ss \<and> ss \<le> 59
      then Inr \<lparr>year = nat y, month = nat m, day = nat d,
                hour = nat hh, minute = nat mm, second = nat ss, tz = None\<rparr>
      else Inl ValueError)"

text \<open>
  \<^verbatim>\<open>datetime.utcfromtimestamp(t)\<close> for \<open>t \<ge> 0\<close> (the parser only calls it after
  asserting \<^verbatim>\<open>value > 0\<close>): the naive UTC date and time \<open>t\<close> seconds after
  1970-01-01 00:00:00, found by stepping through the years and the months.  A result
  beyond year 9999 raises \<^verbatim>\<open>ValueError\<close>.
\<close>

function year_from_days :: "nat \<Rightarrow> nat \<Rightarrow> nat \<times> nat" where
  "year_from_days y n =
     (if n < days_in_year y then (y, n) else year_from_days (Suc y) (n - days_in_year y))"
  by pat_completeness auto
termination
  by (relation "measure (\<lambda>(y, n). n)") (auto simp add: days_in_year_def)

function month_from_days :: "nat \<Rightarrow> nat \<Rightarrow> nat \<Rightarrow> nat \<times> nat" where
  "month_from_days y m n =
     (if n < days_in_month y m then (m, n)
      else month_from_days y (Suc m) (n - days_in_month y m))"
  by pat_completeness auto
termination
  by (relation "measure (\<lambda>(y, m, n). n)") (auto simp add: days_in_month_def)

definition utcfromtimestamp :: "nat \<Rightarrow> error + datetime" where
  "utcfromtimestamp t =
     (let (y, doy) = year_from_days 1970 (t div 86400);
          (m, dom) = month_from_days y 1 doy;
          r = t mod 86400
      in if y > 9999 then Inl ValueError
         else Inr \<lparr>year = y, month = m, day = Suc dom,
                   hour = r div 3600, minute = r mod 3600 div 60, second = r mod 60,
                   tz = None\<rparr>)"

text \<open>
  The ordinal of a date (\<^verbatim>\<open>toordinal\<close>, day 1 is 0001-01-01) and the seconds on the
  wall clock since the start of day 0.  Two naive datetimes compare by wall clock, two
  aware ones by wall clock minus UTC offset, and comparing a naive with an aware one
  raises \<^verbatim>\<open>TypeError\<close>.
\<close>

definition days_before_year :: "nat \<Rightarrow> nat" where
  "days_before_year y = (y - 1) * 365 + (y - 1) div 4 - (y - 1) div 100 + (y - 1) div 400"

definition days_before_month :: "nat \<Rightarrow> nat \<Rightarrow> nat" where
  "days_before_month y m = sum_list (map (days_in_month y) [1..<m])"

definition toordinal :: "datetime \<Rightarrow> nat" where
  "toordinal d = days_before_year (year d) + days_before_month (year d) (month d) + day d"

definition wall_seconds :: "datetime \<Rightarrow> int" where
  "wall_seconds d =
     int (toordinal d) * 86400 + int (hour d) * 3600 + int (minute d) * 60 + int (second d)"

definition dt_less :: "datetime \<Rightarrow> datetime \<Rightarrow> error + bool" where
  "dt_less a b =
     (case (tz a, tz b) of
        (None, None) \<Rightarrow> Inr (wall_seconds a < wall_seconds b)
      | (Some ta, Some tb) \<Rightarrow>
          Inr (wall_seconds a - utcoffset ta < wall_seconds b - utcoffset tb)
      | _ \<Rightarrow> Inl TypeError)"

text \<open>
  The POSIX timestamp of an aware datetime: seconds since 1970-01-01 00:00:00 UTC
  (ordinal 719163).
\<close>

definition timestamp :: "datetime \<Rightarrow> int" where
  "timestamp d =
     wall_seconds d - (case tz d of None \<Rightarrow> 0 | Some t \<Rightarrow> utcoffset t) - 719163 * 86400"

text \<open>
  \<^verbatim>\<open>timezone('Europe/Moscow').localize(value)\<close> attaches the zone to a naive datetime
  and leaves the wall clock as it is.  The offset comes from the time zone database,
  which is not part of the repository: it is the parameter \<open>moscow\<close>, which gives the
  offset in seconds, or nothing where the library raises (at the ends of the supported
  range).  A value without \<^verbatim>\<open>tzinfo\<close> attribute raises \<^verbatim>\<open>AttributeError\<close>, an aware
  datetime \<^verbatim>\<open>ValueError\<close>.
\<close>

definition localize :: "(datetime \<Rightarrow> int option) \<Rightarrow> pyval \<Rightarrow> error + datetime" where
  "localize moscow value =
     (case value of
        PDateTime d \<Rightarrow>
          (case tz d of
             Some t \<Rightarrow> Inl ValueError
           | None \<Rightarrow>
               (case moscow d of
                  None \<Rightarrow> Inl OverflowError
                | Some off \<Rightarrow> Inr (d\<lparr>tz := Some \<lparr>zone = ''Europe/Moscow'', utcoffset = off\<rparr>\<rparr>)))
      | _ \<Rightarrow> Inl AttributeError)"

section \<open>Field coercer: \<^verbatim>\<open>OdnoklassnikiModel.parse\<close>\<close>

text \<open>
  A model class is described by what \<^verbatim>\<open>parse\<close> reads from it: the names
  \<^verbatim>\<open>remote_pk_field\<close> and \<^verbatim>\<open>remote_pk_local_field\<close>, the field lookup
  \<^verbatim>\<open>_meta.get_field\<close> (nothing for \<^verbatim>\<open>FieldDoesNotExist\<close>), the name of the primary key
  attribute, and the attributes of a freshly constructed instance.  A field is known by
  the class tests \<^verbatim>\<open>parse\<close> makes on it; a relation field carries the name of the
  related class and whether \<^verbatim>\<open>None\<close> may be assigned to it (\<^verbatim>\<open>field.null\<close>).  \<^verbatim>\<open>CharField\<close>, \<^verbatim>\<open>FloatField\<close> and the comma-separated fields, whose
  coercions call \<^verbatim>\<open>unicode\<close> and \<^verbatim>\<open>float\<close>, are outside this development;
  \<open>OtherField\<close> is a field that passes none of the tests.
\<close>

datatype field =
    IntegerField
  | DateTimeField
  | DateField
  | ForeignKey string bool
  | OneToOneField string bool
  | OtherField

record model_cls =
  remote_pk_field :: string
  remote_pk_local_field :: string
  get_field :: "string \<Rightarrow> field option"
  pk_attname :: string
  new_instance :: model_instance

text \<open>
  What \<^verbatim>\<open>parse\<close> takes from its surroundings: the related classes by name, the lookup
  \<^verbatim>\<open>rel_class.objects.get(pk=value)\<close> in the local store, and the offsets of the
  Europe/Moscow zone.
\<close>

record env =
  rel_class :: "string \<Rightarrow> model_cls"
  objects_get :: "string \<Rightarrow> pyval \<Rightarrow> error + pyval"
  moscow :: "datetime \<Rightarrow> int option"

text \<open>\<^verbatim>\<open>key.lower()\<close>; a key that is not a text has no such method.\<close>

definition lower_char :: "char \<Rightarrow> char" where
  "lower_char c =
     (if 65 \<le> (of_char c :: nat) \<and> (of_char c :: nat) \<le> 90 then char_of (of_char c + (32 :: nat)) else c)"

definition lower_key :: "pyval \<Rightarrow> error + string" where
  "lower_key key = (case key of PStr s \<Rightarrow> Inr (map lower_char s) | _ \<Rightarrow> Inl AttributeError)"

definition local_key :: "model_cls \<Rightarrow> string \<Rightarrow> string" where
  "local_key cls key = (if key = remote_pk_field cls then remote_pk_local_field cls else key)"

subsection \<open>Dates\<close>

text \<open>
  \<^verbatim>\<open>
  if isinstance(value, string_types) and len(value) >= 10:
      try:
          if len(value) == 19:
              value = datetime(int(value[0:4]), int(value[5:7]), int(value[8:10]),
                               int(value[11:13]), int(value[14:16]), int(value[17:19]))
          elif len(value) == 16:
              value = datetime(int(value[0:4]), int(value[5:7]), int(value[8:10]),
                               int(value[11:13]), int(value[14:16]))
          elif len(value) == 10:
              value = datetime(int(value[0:4]), int(value[5:7]), int(value[8:10]))
          value = timezone('Europe/Moscow').localize(value)
          assert value.year != 1970
      except:
          value = None
  else:
      try:
          value = int(value)
          assert value > 0
          value = datetime.utcfromtimestamp(value).replace(tzinfo=utc)
      except:
          value = None
  \<close>
\<close>

definition slice :: "string \<Rightarrow> nat \<Rightarrow> nat \<Rightarrow> string" where
  "slice s i j = take (j - i) (drop i s)"

definition datetime_of_text :: "string \<Rightarrow> error + pyval" where
  "datetime_of_text s =
     (if length s = 19 then
        bind (int_of_string (slice s 0 4)) (\<lambda>y.
        bind (int_of_string (slice s 5 7)) (\<lambda>m.
        bind (int_of_string (slice s 8 10)) (\<lambda>d.
        bind (int_of_string (slice s 11 13)) (\<lambda>hh.
        bind (int_of_string (slice s 14 16)) (\<lambda>mm.
        bind (int_of_string (slice s 17 19)) (\<lambda>ss.
        bind (datetime_new y m d hh mm ss) (\<lambda>dt. Inr (PDateTime dt))))))))
      else if length s = 16 then
        bind (int_of_string (slice s 0 4)) (\<lambda>y.
        bind (int_of_string (slice s 5 7)) (\<lambda>m.
        bind (int_of_string (slice s 8 10)) (\<lambda>d.
        bind (int_of_string (slice s 11 13)) (\<lambda>hh.
        bind (int_of_string (slice s 14 16)) (\<lambda>mm.
        bind (datetime_new y m d hh mm 0) (\<lambda>dt. Inr (PDateTime dt)))))))
      else if length s = 10 then
        bind (int_of_string (slice s 0 4)) (\<lambda>y.
        bind (int_of_string (slice s 5 7)) (\<lambda>m.
        bind (int_of_string (slice s 8 10)) (\<lambda>d.
        bind (datetime_new y m d 0 0 0) (\<lambda>dt. Inr (PDateTime dt)))))
      else Inr (PStr s))"

text \<open>The two \<^verbatim>\<open>try\<close> blocks, with the exception they end in, if any.\<close>

definition try_text :: "(datetime \<Rightarrow> int option) \<Rightarrow> string \<Rightarrow> error + datetime" where
  "try_text tzdb s =
     bind (datetime_of_text s) (\<lambda>value.
     bind (localize tzdb value) (\<lambda>d.
     if year d \<noteq> 1970 then Inr d else Inl AssertionError))"

definition try_epoch :: "pyval \<Rightarrow> error + datetime" where
  "try_epoch value =
     bind (py_int value) (\<lambda>i.
     if i > 0 then bind (utcfromtimestamp (nat i)) (\<lambda>d. Inr (d\<lparr>tz := Some utc\<rparr>))
     else Inl AssertionError)"

definition coerce_datetime :: "(datetime \<Rightarrow> int option) \<Rightarrow> pyval \<Rightarrow> pyval" where
  "coerce_datetime tzdb value =
     (case value of
        PStr s \<Rightarrow>
          if 10 \<le> length s
          then (case try_text tzdb s of Inl e \<Rightarrow> PNone | Inr d \<Rightarrow> PDateTime d)
          else (case try_epoch value of Inl e \<Rightarrow> PNone | Inr d \<Rightarrow> PDateTime d)
      | _ \<Rightarrow> (case try_epoch value of Inl e \<Rightarrow> PNone | Inr d \<Rightarrow> PDateTime d))"

subsection \<open>Coercion by field type\<close>

text \<open>
  The chain of \<^verbatim>\<open>isinstance\<close> tests.  An integer field converts a truthy value with
  \<^verbatim>\<open>int\<close> and keeps it when that fails; a date field goes through the date coercion;
  no test applies to a relation field or to any other field.
\<close>

definition coerce :: "env \<Rightarrow> field \<Rightarrow> pyval \<Rightarrow> pyval" where
  "coerce e f value =
     (case f of
        IntegerField \<Rightarrow>
          (if truthy value then (case py_int value of Inl err \<Rightarrow> value | Inr i \<Rightarrow> PInt i)
           else value)
      | DateTimeField \<Rightarrow> coerce_datetime (moscow e) value
      | DateField \<Rightarrow> coerce_datetime (moscow e) value
      | _ \<Rightarrow> value)"

text \<open>\<^verbatim>\<open>isinstance(field, (models.OneToOneField, models.ForeignKey))\<close> and \<^verbatim>\<open>field.rel.to\<close>.\<close>

fun rel_to :: "field \<Rightarrow> string option" where
  "rel_to (ForeignKey c n) = Some c"
| "rel_to (OneToOneField c n) = Some c"
| "rel_to f = None"

fun field_null :: "field \<Rightarrow> bool" where
  "field_null (ForeignKey c n) = n"
| "field_null (OneToOneField c n) = n"
| "field_null f = False"

subsection \<open>Assignment to a relation field\<close>

text \<open>
  The name of a relation field is not a plain attribute of the instance: the class has
  a descriptor there, and \<^verbatim>\<open>setattr(self, name, value)\<close> runs Django's
  \<^verbatim>\<open>
  def __set__(self, instance, value):
      if value is None and self.field.null == False:
          raise ValueError('Cannot assign None: ... does not allow null values.')
      elif value is not None and not isinstance(value, self.field.rel.to):
          raise ValueError('Cannot assign ...: ... must be a ... instance.')
      ...
      for lh_field, rh_field in self.field.related_fields:
          try:
              setattr(instance, lh_field.attname, getattr(value, rh_field.attname))
          except AttributeError:
              setattr(instance, lh_field.attname, None)
      setattr(instance, self.cache_name, value)
  \<close>
  So a value that is neither \<^verbatim>\<open>None\<close> nor an instance of the related class raises
  \<^verbatim>\<open>ValueError\<close>; otherwise the attribute \<^verbatim>\<open>name_id\<close> receives the primary key of the
  value (\<^verbatim>\<open>None\<close> if it has none) and the attribute \<^verbatim>\<open>_name_cache\<close> the value itself.
  An instance of the related class is an object of that class name.  Versions of
  Django that do not make the first test are the case where every field has the flag.
  The choice of database recorded in \<^verbatim>\<open>_state\<close> and the reverse cache that a one-to-one
  field leaves on the related object are not represented.
\<close>

definition cache_name :: "string \<Rightarrow> string" where
  "cache_name name = ''_'' @ name @ ''_cache''"

definition descriptor_set ::
    "string \<Rightarrow> string \<Rightarrow> bool \<Rightarrow> model_instance \<Rightarrow> string \<Rightarrow> pyval \<Rightarrow> error + model_instance" where
  "descriptor_set rel_pk rel null self name value =
     (case value of
        PNone \<Rightarrow>
          if null
          then Inr (setattr (setattr self (name @ ''_id'') PNone) (cache_name name) PNone)
          else Inl ValueError
      | PObj c attrs \<Rightarrow>
          if c = rel
          then Inr (setattr
                      (setattr self (name @ ''_id'')
                         (case map_of attrs rel_pk of None \<Rightarrow> PNone | Some v \<Rightarrow> v))
                      (cache_name name) value)
          else Inl ValueError
      | _ \<Rightarrow> Inl ValueError)"

subsection \<open>The loop over the response\<close>

text \<open>
  \<^verbatim>\<open>
  def parse(self, response):
      for key, value in response.items():
          key = key.lower()
          if key == self.remote_pk_field:
              key = self.remote_pk_local_field
          try:
              field = self._meta.get_field(key)
          except FieldDoesNotExist:
              continue
          ... coercion by field type ...
          if isinstance(field, (models.OneToOneField, models.ForeignKey)) and value:
              rel_class = field.rel.to
              if isinstance(value, dict):
                  value = rel_class().parse(dict(value))
              else:
                  try:
                      value = rel_class.objects.get(pk=value)
                  except rel_class.DoesNotExist:
                      key = key + '_id'
          setattr(self, key, value)
  \<close>
  \<^verbatim>\<open>parse\<close> has no \<^verbatim>\<open>return\<close> statement: the call on the related class fills a fresh
  instance that is dropped and gives \<^verbatim>\<open>None\<close>.  The final \<^verbatim>\<open>setattr\<close> is plain attribute
  assignment, except under the name of a relation field, where it is the assignment
  through the descriptor; the name with the suffix \<^verbatim>\<open>_id\<close> is a plain attribute.  The
  function returns the updated \<^verbatim>\<open>self\<close>, or the exception that escapes.
\<close>

definition rsize :: "(pyval \<times> pyval) list \<Rightarrow> nat" where
  "rsize r = sum_list (map (\<lambda>(k, v). Suc (size v)) r)"

function parse :: "env \<Rightarrow> model_cls \<Rightarrow> model_instance \<Rightarrow> (pyval \<times> pyval) list \<Rightarrow> error + model_instance" where
  "parse e cls self [] = Inr self"
| "parse e cls self ((key, value) # rest) =
     (case lower_key key of
        Inl err \<Rightarrow> Inl err
      | Inr k \<Rightarrow>
          (case get_field cls (local_key cls k) of
             None \<Rightarrow> parse e cls self rest
           | Some field \<Rightarrow>
               (case rel_to field of
                  None \<Rightarrow> parse e cls (setattr self (local_key cls k) (coerce e field value)) rest
                | Some rel \<Rightarrow>
                    if truthy value then
                      (case value of
                         PDict d \<Rightarrow>
                           (case parse e (rel_class e rel) (new_instance (rel_class e rel)) (dict_items d) of
                              Inl err \<Rightarrow> Inl err
                            | Inr dropped \<Rightarrow>
                                (case descriptor_set (pk_attname (rel_class e rel)) rel (field_null field)
                                        self (local_key cls k) PNone of
                                   Inl err \<Rightarrow> Inl err
                                 | Inr self' \<Rightarrow> parse e cls self' rest))
                       | _ \<Rightarrow>
                           (case objects_get e rel value of
                              Inr obj \<Rightarrow>
                                (case descriptor_set (pk_attname (rel_class e rel)) rel (field_null field)
                                        self (local_key cls k) obj of
                                   Inl err \<Rightarrow> Inl err
                                 | Inr self' \<Rightarrow> parse e cls self' rest)
                            | Inl err \<Rightarrow>
                                if err = DoesNotExist
                                then parse e cls (setattr self (local_key cls k @ ''_id'') value) rest
                                else Inl err))
                    else
                      (case descriptor_set (pk_attname (rel_class e rel)) rel (field_null field)
                              self (local_key cls k) value of
                         Inl err \<Rightarrow> Inl err
                       | Inr self' \<Rightarrow> parse e cls self' rest))))"
  by pat_completeness auto

termination
  apply (relation "measure (\<lambda>(e, cls, self, r). rsize r)")
  apply (simp_all add: rsize_def)
  subgoal for cls key val rest b x2 x2a x6
  proof -
    have "(\<Sum>(k, v)\<leftarrow>dict_items x6. Suc (size v)) \<le> size_list (size_prod (\<lambda>x. 0) size) x6"
      unfolding dict_items_def items_def
    proof (induction x6 rule: AList.clearjunk.induct)
      case 1
      show ?case by simp
    next
      case (2 p ps)
      have "size_list (size_prod (\<lambda>x. 0) size) (AList.delete (fst p) ps)
              \<le> size_list (size_prod (\<lambda>x. 0) size) ps"
        by (induction ps) (auto simp add: AList.delete_eq)
      with 2 show ?case by (cases p) (simp add: o_def split_def)
    qed
    then show ?thesis by simp
  qed
  done

section \<open>Response normalizer: \<^verbatim>\<open>OdnoklassnikiManager\<close>\<close>

text \<open>
  \<^verbatim>\<open>
  def parse_response_dict(self, resource, extra_fields=None):
      instance = self.model()
      if extra_fields:
          instance.__dict__.update(extra_fields)
      instance.parse(resource)
      return instance
  \<close>
\<close>

definition dict_update :: "model_instance \<Rightarrow> pydict \<Rightarrow> model_instance" where
  "dict_update obj extra = foldl (\<lambda>acc (k, v). setattr acc k v) obj (items extra)"

definition parse_response_dict ::
    "env \<Rightarrow> model_cls \<Rightarrow> (pyval \<times> pyval) list \<Rightarrow> pydict \<Rightarrow> error + model_instance" where
  "parse_response_dict e cls resource extra_fields =
     parse e cls (dict_update (new_instance cls) extra_fields) resource"

text \<open>
  \<^verbatim>\<open>
  def parse_response_list(self, response_list, extra_fields=None):
      instances = []
      for resource in response_list:
          if isinstance(resource, list) and len(resource):
              resource = resource[0]
          if isinstance(resource, int):
              continue
          try:
              resource = dict(resource)
          except (TypeError, ValueError), e:
              log.error("Resource %s is not dictionary" % resource)
              raise e
          instance = self.parse_response_dict(resource, extra_fields)
          instances += [instance]
      return instances
  \<close>
\<close>

fun unwrap :: "pyval \<Rightarrow> pyval" where
  "unwrap (PList (x # xs)) = x"
| "unwrap resource = resource"

fun parse_response_list ::
    "env \<Rightarrow> model_cls \<Rightarrow> pyval list \<Rightarrow> pydict \<Rightarrow> error + model_instance list" where
  "parse_response_list e cls [] extra_fields = Inr []"
| "parse_response_list e cls (resource # rest) extra_fields =
     (if is_int (unwrap resource) then parse_response_list e cls rest extra_fields
      else
        (case py_dict (unwrap resource) of
           Inl err \<Rightarrow> Inl err
         | Inr d \<Rightarrow>
             (case parse_response_dict e cls d extra_fields of
                Inl err \<Rightarrow> Inl err
              | Inr inst \<Rightarrow>
                  (case parse_response_list e cls rest extra_fields of
                     Inl err \<Rightarrow> Inl err
                   | Inr instances \<Rightarrow> Inr (inst # instances)))))"

text \<open>
  \<^verbatim>\<open>
  def parse_response(self, response, extra_fields=None):
      if isinstance(response, (list, tuple)):
          return self.parse_response_list(response, extra_fields)
      elif isinstance(response, dict):
          return self.parse_response_dict(response, extra_fields)
      else:
          raise OdnoklassnikiContentError(...)
  \<close>
\<close>

datatype parsed = Instances "model_instance list" | Instance model_instance

definition parse_response :: "env \<Rightarrow> model_cls \<Rightarrow> pyval \<Rightarrow> pydict \<Rightarrow> error + parsed" where
  "parse_response e cls response extra_fields =
     (case response of
        PList xs \<Rightarrow> map_sum id Instances (parse_response_list e cls xs extra_fields)
      | PDict d \<Rightarrow> map_sum id Instance (parse_response_dict e cls (dict_items d) extra_fields)
      | _ \<Rightarrow> Inl OdnoklassnikiContentError)"


section \<open>Timeline specialization: \<^verbatim>\<open>OdnoklassnikiTimelineManager\<close>\<close>

text \<open>
  \<^verbatim>\<open>
  def get_timeline_date(self, instance):
      return getattr(instance, self.timeline_cut_fieldname,
                     datetime(1970, 1, 1).replace(tzinfo=utc))
  \<close>
\<close>

definition epoch_sentinel :: datetime where
  "epoch_sentinel =
     \<lparr>year = 1970, month = 1, day = 1, hour = 0, minute = 0, second = 0, tz = Some utc\<rparr>"

definition get_timeline_date :: "string \<Rightarrow> model_instance \<Rightarrow> pyval" where
  "get_timeline_date timeline_cut_fieldname inst =
     (case map_of inst timeline_cut_fieldname of
        None \<Rightarrow> PDateTime epoch_sentinel
      | Some v \<Rightarrow> v)"

text \<open>
  The filtering loop of \<^verbatim>\<open>get\<close>, applied to the list \<open>result\<close> that the base
  manager returned (\<^verbatim>\<open>timeline_force_ordering\<close> is \<^verbatim>\<open>False\<close>, its value in the class).
  A cursor is \<^verbatim>\<open>None\<close> or a datetime.
  \<^verbatim>\<open>
  instances = []
  for instance in result:
      timeline_date = self.get_timeline_date(instance)
      if timeline_date and isinstance(timeline_date, datetime):
          if after and after > timeline_date:
              break
          if before and before < timeline_date:
              continue
      instances += [instance]
  return instances
  \<close>
\<close>

definition cursor_after :: "datetime option \<Rightarrow> datetime \<Rightarrow> error + bool" where
  "cursor_after after timeline_date =
     (case after of None \<Rightarrow> Inr False | Some a \<Rightarrow> dt_less timeline_date a)"

definition cursor_before :: "datetime option \<Rightarrow> datetime \<Rightarrow> error + bool" where
  "cursor_before before timeline_date =
     (case before of None \<Rightarrow> Inr False | Some b \<Rightarrow> dt_less b timeline_date)"

fun timeline_get ::
    "string \<Rightarrow> datetime option \<Rightarrow> datetime option \<Rightarrow> model_instance list
       \<Rightarrow> error + model_instance list" where
  "timeline_get f after before [] = Inr []"
| "timeline_get f after before (inst # rest) =
     (case get_timeline_date f inst of
        PDateTime timeline_date \<Rightarrow>
          (case cursor_after after timeline_date of
             Inl err \<Rightarrow> Inl err
           | Inr stop \<Rightarrow>
               if stop then Inr []
               else
                 (case cursor_before before timeline_date of
                    Inl err \<Rightarrow> Inl err
                  | Inr skip \<Rightarrow>
                      if skip then timeline_get f after before rest
                      else map_sum id ((#) inst) (timeline_get f after before rest)))
      | _ \<Rightarrow> map_sum id ((#) inst) (timeline_get f after before rest))"

section \<open>Fetch orchestrator: \<^verbatim>\<open>get_or_create_from_instance\<close>\<close>

text \<open>
  Modelled from the spec: the persistence layer (section 6, \<open>lookupByKeys\<close> and
  \<open>save\<close>) is Django's ORM and not part of the repository.  The store is the list of
  persisted records of the model.  \<^verbatim>\<open>objects.get(**kwargs)\<close> returns the one record
  whose attributes equal the given values, and raises \<^verbatim>\<open>DoesNotExist\<close> or
  \<^verbatim>\<open>MultipleObjectsReturned\<close> otherwise.  \<^verbatim>\<open>save\<close> of an instance without primary key
  inserts it under a fresh key, which the instance receives; \<^verbatim>\<open>save\<close> of an instance
  with a primary key replaces the record stored under that key, or inserts the instance
  if there is none.
\<close>

type_synonym store = "model_instance list"

definition matches :: "(string \<times> pyval) list \<Rightarrow> model_instance \<Rightarrow> bool" where
  "matches kwargs r = list_all (\<lambda>(k, v). map_of r k = Some v) kwargs"

definition objects_get_by :: "store \<Rightarrow> (string \<times> pyval) list \<Rightarrow> error + model_instance" where
  "objects_get_by st kwargs =
     (case filter (matches kwargs) st of
        [] \<Rightarrow> Inl DoesNotExist
      | [r] \<Rightarrow> Inr r
      | _ \<Rightarrow> Inl MultipleObjectsReturned)"

definition pk_of :: "string \<Rightarrow> model_instance \<Rightarrow> pyval" where
  "pk_of pk r = (case map_of r pk of None \<Rightarrow> PNone | Some v \<Rightarrow> v)"

definition next_pk :: "string \<Rightarrow> store \<Rightarrow> int" where
  "next_pk pk st = foldr (\<lambda>r m. case pk_of pk r of PInt i \<Rightarrow> max (i + 1) m | _ \<Rightarrow> m) st 1"

definition save :: "string \<Rightarrow> store \<Rightarrow> model_instance \<Rightarrow> store \<times> model_instance" where
  "save pk st inst =
     (if pk_of pk inst = PNone
      then (st @ [setattr inst pk (PInt (next_pk pk st))], setattr inst pk (PInt (next_pk pk st)))
      else if pk_of pk inst \<in> set (map (pk_of pk) st)
      then (map (\<lambda>r. if pk_of pk r = pk_of pk inst then inst else r) st, inst)
      else (st @ [inst], inst))"

text \<open>
  \<^verbatim>\<open>
  def get_or_create_from_instance(self, instance):
      remote_pk_dict = {}
      for field_name in self.remote_pk:
          remote_pk_dict[field_name] = getattr(instance, field_name)
      if remote_pk_dict:
          try:
              old_instance = self.model.objects.using(MASTER_DATABASE).get(**remote_pk_dict)
              instance._substitute(old_instance)
              instance.save()
          except self.model.DoesNotExist:
              instance.save()
      else:
          instance.save()
      return instance
  \<close>
  The function returns the new store and the saved instance.
\<close>

fun remote_pk_dict :: "string list \<Rightarrow> model_instance \<Rightarrow> error + (string \<times> pyval) list" where
  "remote_pk_dict [] inst = Inr []"
| "remote_pk_dict (field_name # names) inst =
     (case getattr inst field_name of
        Inl err \<Rightarrow> Inl err
      | Inr v \<Rightarrow> map_sum id ((#) (field_name, v)) (remote_pk_dict names inst))"

definition get_or_create_from_instance ::
    "string \<Rightarrow> string list \<Rightarrow> store \<Rightarrow> model_instance \<Rightarrow> error + (store \<times> model_instance)" where
  "get_or_create_from_instance pk remote_pk st inst =
     (case remote_pk_dict remote_pk inst of
        Inl err \<Rightarrow> Inl err
      | Inr kwargs \<Rightarrow>
          if kwargs \<noteq> [] then
            (case objects_get_by st kwargs of
               Inr old_instance \<Rightarrow>
                 (case substitute pk inst old_instance of
                    Inl err \<Rightarrow> Inl err
                  | Inr inst' \<Rightarrow> Inr (save pk st inst'))
             | Inl err \<Rightarrow> if err = DoesNotExist then Inr (save pk st inst) else Inl err)
          else Inr (save pk st inst))"

section \<open>Notions used in the statements\<close>

text \<open>
  The instant of a datetime in seconds (wall clock minus UTC offset), the two cursor
  tests of the timeline loop read on instants, and the conditions under which Python
  can compare the dates involved (all of them aware).
\<close>

definition utc_seconds :: "datetime \<Rightarrow> int" where
  "utc_seconds d = wall_seconds d - (case tz d of None \<Rightarrow> 0 | Some t \<Rightarrow> utcoffset t)"

fun is_datetime :: "pyval \<Rightarrow> bool" where
  "is_datetime (PDateTime d) = True"
| "is_datetime v = False"

definition stops :: "string \<Rightarrow> datetime option \<Rightarrow> model_instance \<Rightarrow> bool" where
  "stops f after x =
     (case get_timeline_date f x of
        PDateTime d \<Rightarrow> (case after of None \<Rightarrow> False | Some a \<Rightarrow> utc_seconds d < utc_seconds a)
      | _ \<Rightarrow> False)"

definition skipped :: "string \<Rightarrow> datetime option \<Rightarrow> model_instance \<Rightarrow> bool" where
  "skipped f before x =
     (case get_timeline_date f x of
        PDateTime d \<Rightarrow> (case before of None \<Rightarrow> False | Some b \<Rightarrow> utc_seconds b < utc_seconds d)
      | _ \<Rightarrow> False)"

definition aware_cursor :: "datetime option \<Rightarrow> bool" where
  "aware_cursor c = (case c of None \<Rightarrow> True | Some d \<Rightarrow> tz d \<noteq> None)"

definition comparable :: "string \<Rightarrow> model_instance \<Rightarrow> bool" where
  "comparable f x = (case get_timeline_date f x of PDateTime d \<Rightarrow> tz d \<noteq> None | _ \<Rightarrow> True)"

definition dated :: "string \<Rightarrow> model_instance \<Rightarrow> bool" where
  "dated f x = (case map_of x f of Some (PDateTime d) \<Rightarrow> tz d \<noteq> None | _ \<Rightarrow> False)"

text \<open>A day at midnight UTC, for examples.\<close>

definition utc_day :: "nat \<Rightarrow> nat \<Rightarrow> nat \<Rightarrow> datetime" where
  "utc_day y m d =
     \<lparr>year = y, month = m, day = d, hour = 0, minute = 0, second = 0, tz = Some utc\<rparr>"

text \<open>
  An example model in the manner of \<^verbatim>\<open>OdnoklassnikiPKModel\<close>: the primary key \<^verbatim>\<open>id\<close>
  is an integer field and the remote identity, \<^verbatim>\<open>date\<close> is a date and \<^verbatim>\<open>owner\<close> a
  foreign key that may be null; no related record is stored, and Moscow is three hours ahead of UTC.
\<close>

definition example_cls :: model_cls where
  "example_cls =
     \<lparr>remote_pk_field = ''id'', remote_pk_local_field = ''id'',
      get_field = (\<lambda>k. if k = ''id'' then Some IntegerField
                        else if k = ''date'' then Some DateTimeField
                        else if k = ''owner'' then Some (ForeignKey ''Owner'' True)
                        else None),
      pk_attname = ''id'',
      new_instance = [(''id'', PNone), (''date'', PNone), (''owner_id'', PNone)]\<rparr>"

definition example_env :: env where
  "example_env =
     \<lparr>rel_class = (\<lambda>c. example_cls),
      objects_get = (\<lambda>c v. Inl DoesNotExist),
      moscow = (\<lambda>d. Some 10800)\<rparr>"

definition example_post :: "int \<Rightarrow> datetime \<Rightarrow> model_instance" where
  "example_post i d = [(''id'', PInt i), (''date'', PDateTime d)]"

fun is_dict :: "pyval \<Rightarrow> bool" where
  "is_dict (PDict d) = True"
| "is_dict v = False"

text \<open>
  The positional reading of a text timestamp in the words of the specification: year,
  month and day from the characters 0-3, 5-6 and 8-9, then hour and minute from 11-12
  and 14-15 if the text has them, then second from 17-18, each read as an integer; the
  characters in between are not looked at.
\<close>

definition to_opt :: "error + 'a \<Rightarrow> 'a option" where
  "to_opt r = (case r of Inl err \<Rightarrow> None | Inr x \<Rightarrow> Some x)"

definition field_int :: "string \<Rightarrow> nat \<Rightarrow> nat \<Rightarrow> int option" where
  "field_int s i j = to_opt (int_of_string (slice s i j))"

definition positional :: "string \<Rightarrow> (int \<times> int \<times> int \<times> int \<times> int \<times> int) option" where
  "positional s =
     Option.bind (field_int s 0 4) (\<lambda>y.
     Option.bind (field_int s 5 7) (\<lambda>m.
     Option.bind (field_int s 8 10) (\<lambda>d.
     if length s = 10 then Some (y, m, d, 0, 0, 0)
     else
       Option.bind (field_int s 11 13) (\<lambda>hh.
       Option.bind (field_int s 14 16) (\<lambda>mm.
       if length s = 16 then Some (y, m, d, hh, mm, 0)
       else Option.bind (field_int s 17 19) (\<lambda>ss. Some (y, m, d, hh, mm, ss)))))))"

definition in_moscow :: "int \<Rightarrow> datetime \<Rightarrow> datetime" where
  "in_moscow off d = d\<lparr>tz := Some \<lparr>zone = ''Europe/Moscow'', utcoffset = off\<rparr>\<rparr>"

text \<open>
  The shapes of a raw date value: a text of one of the three timestamp lengths, and a
  text long enough to be taken for a timestamp.  The last second of year 9999 is the
  largest count of seconds that \<^verbatim>\<open>datetime\<close> can represent.
\<close>

definition max_epoch :: int where
  "max_epoch = 253402300799"

definition text_timestamp :: "pyval \<Rightarrow> bool" where
  "text_timestamp value =
     (case value of PStr s \<Rightarrow> length s = 19 \<or> length s = 16 \<or> length s = 10 | _ \<Rightarrow> False)"

definition long_text :: "pyval \<Rightarrow> bool" where
  "long_text value = (case value of PStr s \<Rightarrow> 10 \<le> length s | _ \<Rightarrow> False)"

text \<open>
  The invariant of the store kept by the persistence layer: every record has a primary
  key and no two records share one.  A record carries the remote identity of an
  instance when it has the values of the instance for the remote-identity fields.
\<close>

definition wf_store :: "string \<Rightarrow> store \<Rightarrow> bool" where
  "wf_store pk st = (distinct (map (pk_of pk) st) \<and> PNone \<notin> set (map (pk_of pk) st))"

definition same_remote :: "string list \<Rightarrow> model_instance \<Rightarrow> model_instance \<Rightarrow> bool" where
  "same_remote remote_pk inst r =
     (case remote_pk_dict remote_pk inst of Inl err \<Rightarrow> False | Inr kwargs \<Rightarrow> matches kwargs r)"
section \<open>Properties of the reconciler\<close>

lemma map_of_setattr: "map_of (setattr obj name v) = (map_of obj)(name \<mapsto> v)"
  by (simp add: setattr_def update_conv')

lemma keys_setattr: "fst ` set (setattr obj name v) = insert name (fst ` set obj)"
proof -
  have "set (map fst (AList.update name v obj)) = insert name (set (map fst obj))"
    by (auto simp add: update_keys simp del: set_map)
  then show ?thesis by (simp add: setattr_def)
qed

lemma getattr_Inr_iff: "getattr obj name = Inr v \<longleftrightarrow> map_of obj name = Some v"
  by (simp add: getattr_def split: option.splits)

lemma substitute_loop_other:
  "substitute_loop its self = Inr r \<Longrightarrow> k \<notin> fst ` set its \<Longrightarrow> map_of r k = map_of self k"
proof (induction its arbitrary: self)
  case Nil
  then show ?case by simp
next
  case (Cons it its)
  obtain key ov where it: "it = (key, ov)" by (cases it)
  from Cons.prems(2) it have kk: "k \<noteq> key" and notin: "k \<notin> fst ` set its" by auto
  from Cons.prems(1) it obtain nv where g: "getattr self key = Inr nv"
    by (cases "getattr self key") auto
  show ?case
  proof (cases "truthy ov \<and> (nv = PNone \<or> nv = PStr [])")
    case True
    with Cons.prems(1) it g have "substitute_loop its (setattr self key ov) = Inr r" by simp
    from Cons.IH[OF this notin] kk show ?thesis by (simp add: map_of_setattr)
  next
    case False
    with Cons.prems(1) it g have "substitute_loop its self = Inr r" by auto
    from Cons.IH[OF this notin] show ?thesis .
  qed
qed

lemma substitute_loop_key:
  assumes "substitute_loop its self = Inr r"
    and "distinct (map fst its)"
    and "(k, ov) \<in> set its"
    and "map_of self k = Some nv"
  shows "map_of r k = Some (if truthy ov \<and> (nv = PNone \<or> nv = PStr []) then ov else nv)"
  using assms
proof (induction its arbitrary: self)
  case Nil
  then show ?case by simp
next
  case (Cons it its)
  obtain key ov' where it: "it = (key, ov')" by (cases it)
  from Cons.prems(1) it obtain nv' where g: "getattr self key = Inr nv'"
    by (cases "getattr self key") auto
  let ?self' = "if truthy ov' \<and> (nv' = PNone \<or> nv' = PStr []) then setattr self key ov' else self"
  from Cons.prems(1) it g have rest: "substitute_loop its ?self' = Inr r" by (auto split: if_splits)
  from Cons.prems(2) it have dist: "distinct (map fst its)" and fresh: "key \<notin> fst ` set its" by auto
  show ?case
  proof (cases "k = key")
    case True
    with Cons.prems(3) it fresh have ov: "ov' = ov" by force
    from True g Cons.prems(4) have nv: "nv' = nv" by (simp add: getattr_Inr_iff)
    from substitute_loop_other[OF rest] fresh True have "map_of r k = map_of ?self' k" by simp
    with True ov nv Cons.prems(4) show ?thesis by (auto simp add: map_of_setattr)
  next
    case False
    with Cons.prems(3) it have mem: "(k, ov) \<in> set its" by auto
    from False Cons.prems(4) have "map_of ?self' k = Some nv" by (simp add: map_of_setattr)
    from Cons.IH[OF rest dist mem this] show ?thesis .
  qed
qed

lemma items_distinct: "distinct (map fst (items d))"
  by (simp add: items_def)

lemma items_mem: "(k, v) \<in> set (items d) \<longleftrightarrow> map_of d k = Some v"
proof -
  have "(k, v) \<in> set (items d) \<longleftrightarrow> map_of (items d) k = Some v"
    using items_distinct[of d] by simp
  then show ?thesis by (simp add: items_def map_of_clearjunk)
qed

lemma items_keys: "fst ` set (items d) = fst ` set d"
  by (simp add: items_def dom_clearjunk)

lemma substitute_loop_keys:
  "substitute_loop its self = Inr r \<Longrightarrow> fst ` set r = fst ` set self"
proof (induction its arbitrary: self)
  case Nil
  then show ?case by simp
next
  case (Cons it its)
  obtain key ov where it: "it = (key, ov)" by (cases it)
  from Cons.prems it obtain nv where g: "getattr self key = Inr nv"
    by (cases "getattr self key") auto
  then have "map_of self key = Some nv" by (simp add: getattr_Inr_iff)
  then have key: "key \<in> fst ` set self" by (metis map_of_SomeD fst_conv image_eqI)
  show ?case
  proof (cases "truthy ov \<and> (nv = PNone \<or> nv = PStr [])")
    case True
    with Cons.prems it g have "substitute_loop its (setattr self key ov) = Inr r" by simp
    from Cons.IH[OF this] key show ?thesis by (auto simp add: keys_setattr)
  next
    case False
    with Cons.prems it g have "substitute_loop its self = Inr r" by auto
    from Cons.IH[OF this] show ?thesis .
  qed
qed

lemma substitute_loop_returns:
  "fst ` set its \<subseteq> fst ` set self \<Longrightarrow> \<exists>r. substitute_loop its self = Inr r"
proof (induction its arbitrary: self)
  case Nil
  then show ?case by simp
next
  case (Cons it its)
  obtain key ov where it: "it = (key, ov)" by (cases it)
  from Cons.prems it have "key \<in> fst ` set self" by auto
  then obtain nv where "map_of self key = Some nv"
    by (metis domD dom_map_of_conv_image_fst)
  then have g: "getattr self key = Inr nv" by (simp add: getattr_Inr_iff)
  from Cons.prems it have sub: "fst ` set its \<subseteq> fst ` set self" by auto
  then have sub': "fst ` set its \<subseteq> fst ` set (setattr self key ov)"
    by (auto simp add: keys_setattr)
  from Cons.IH[OF sub] Cons.IH[OF sub'] it g show ?case by simp
qed

lemma substitute_returns:
  assumes "map_of old_instance pk = Some old_pk"
    and "fst ` set old_instance \<subseteq> insert pk (fst ` set self)"
  shows "\<exists>r. substitute pk self old_instance = Inr r"
proof -
  from assms(1) have g: "getattr old_instance pk = Inr old_pk" by (simp add: getattr_Inr_iff)
  from assms(2) have "fst ` set (items old_instance) \<subseteq> fst ` set (setattr self pk old_pk)"
    by (simp add: items_keys keys_setattr)
  from substitute_loop_returns[OF this] g show ?thesis by (simp add: substitute_def)
qed

lemma substitute_field:
  assumes "substitute pk self old_instance = Inr r"
    and "map_of old_instance k = Some ov"
    and "map_of self k = Some nv"
    and "k \<noteq> pk"
  shows "map_of r k = Some (if truthy ov \<and> (nv = PNone \<or> nv = PStr []) then ov else nv)"
proof -
  from assms(1) obtain old_pk where
    loop: "substitute_loop (items old_instance) (setattr self pk old_pk) = Inr r"
    by (cases "getattr old_instance pk") (auto simp add: substitute_def)
  from assms(2) have mem: "(k, ov) \<in> set (items old_instance)" by (simp add: items_mem)
  from assms(3,4) have "map_of (setattr self pk old_pk) k = Some nv"
    by (simp add: map_of_setattr)
  from substitute_loop_key[OF loop items_distinct mem this] show ?thesis .
qed

lemma substitute_pk:
  assumes "substitute pk self old_instance = Inr r"
  shows "map_of r pk = map_of old_instance pk"
proof -
  from assms obtain old_pk where g: "getattr old_instance pk = Inr old_pk"
    and loop: "substitute_loop (items old_instance) (setattr self pk old_pk) = Inr r"
    by (cases "getattr old_instance pk") (auto simp add: substitute_def)
  from g have old: "map_of old_instance pk = Some old_pk" by (simp add: getattr_Inr_iff)
  then have mem: "(pk, old_pk) \<in> set (items old_instance)" by (simp add: items_mem)
  have "map_of (setattr self pk old_pk) pk = Some old_pk" by (simp add: map_of_setattr)
  from substitute_loop_key[OF loop items_distinct mem this] old show ?thesis by simp
qed


subsection \<open>Backfill rule\<close>





subsection \<open>Value preservation\<close>

text \<open>
  Claim C1, as stated, fails: an existing value that is neither \<^verbatim>\<open>None\<close> nor the
  empty string but is falsy (here the integer \<^verbatim>\<open>0\<close>) is not carried over when the
  new value is \<^verbatim>\<open>None\<close>.
\<close>

theorem substitute_existing_zero_lost:
  "substitute ''id''
      [(''id'', PInt 7), (''age'', PNone)]
      [(''id'', PInt 7), (''age'', PInt 0)]
     = Inr [(''id'', PInt 7), (''age'', PNone)]"
  by (simp add: substitute_def getattr_def setattr_def items_def)

text \<open>
  Claim C1, amended.  For a field \<open>F\<close> other than the storage identity: if the existing
  record has a truthy value for \<open>F\<close> and the new instance has \<^verbatim>\<open>None\<close> or the empty
  string, the reconciled instance carries the existing value; if the new instance has a
  value that is neither \<^verbatim>\<open>None\<close> nor the empty string, the reconciled instance carries
  the new value, whatever the existing one is.
\<close>

theorem substitute_value_preserving:
  assumes "substitute pk self old_instance = Inr r"
    and "map_of old_instance F = Some ov"
    and "map_of self F = Some nv"
    and "F \<noteq> pk"
  shows "(truthy ov \<and> (nv = PNone \<or> nv = PStr []) \<longrightarrow> map_of r F = Some ov)
       \<and> (nv \<noteq> PNone \<and> nv \<noteq> PStr [] \<longrightarrow> map_of r F = Some nv)"
  using substitute_field[OF assms] by auto

theorem substitute_value_preserving_witness:
  "substitute ''id''
      [(''id'', PNone), (''name'', PStr []), (''age'', PInt 5)]
      [(''id'', PInt 7), (''name'', PStr ''Ann''), (''age'', PInt 3)]
     = Inr [(''id'', PInt 7), (''name'', PStr ''Ann''), (''age'', PInt 5)]
   \<and> map_of [(''id'', PInt 7), (''name'', PStr ''Ann''), (''age'', PInt 5)] ''name''
       = Some (PStr ''Ann'')"
proof -
  let ?new = "[(''id'', PNone), (''name'', PStr []), (''age'', PInt 5)]"
  let ?old = "[(''id'', PInt 7), (''name'', PStr ''Ann''), (''age'', PInt 3)]"
  let ?r = "[(''id'', PInt 7), (''name'', PStr ''Ann''), (''age'', PInt 5)]"
  have h1: "substitute ''id'' ?new ?old = Inr ?r"
    by (simp add: substitute_def getattr_def setattr_def items_def)
  have h2: "map_of ?old ''name'' = Some (PStr ''Ann'')" by simp
  have h3: "map_of ?new ''name'' = Some (PStr [])" by simp
  have h4: "''name'' \<noteq> ''id''" by simp
  from substitute_value_preserving[OF h1 h2 h3 h4] h1 show ?thesis by simp
qed
section \<open>Properties of the timeline filter\<close>

lemma dt_less_aware:
  "tz a = Some ta \<Longrightarrow> tz b = Some tb \<Longrightarrow> dt_less a b = Inr (utc_seconds a < utc_seconds b)"
  by (simp add: dt_less_def utc_seconds_def)

text \<open>
  When every date that is compared is aware, the loop returns the instances before the
  first one that is older than \<open>after\<close>, without those that are newer than \<open>before\<close>.
\<close>

lemma timeline_get_window:
  assumes "aware_cursor after" and "aware_cursor before"
    and "\<forall>x\<in>set result. comparable f x"
  shows "timeline_get f after before result =
           Inr (filter (\<lambda>x. \<not> skipped f before x) (takeWhile (\<lambda>x. \<not> stops f after x) result))"
  using assms(3)
proof (induction result)
  case Nil
  show ?case by simp
next
  case (Cons x xs)
  then have IH: "timeline_get f after before xs =
           Inr (filter (\<lambda>x. \<not> skipped f before x) (takeWhile (\<lambda>x. \<not> stops f after x) xs))"
    and cmp: "comparable f x" by simp_all
  show ?case
  proof (cases "get_timeline_date f x")
    case (PDateTime d)
    with cmp obtain td where td: "tz d = Some td" by (auto simp add: comparable_def)
    have ca: "cursor_after after d = Inr (stops f after x)"
      using assms(1) td PDateTime
      by (auto simp add: cursor_after_def stops_def aware_cursor_def dt_less_aware
            split: option.splits)
    have cb: "cursor_before before d = Inr (skipped f before x)"
      using assms(2) td PDateTime
      by (auto simp add: cursor_before_def skipped_def aware_cursor_def dt_less_aware
            split: option.splits)
    show ?thesis using PDateTime ca cb IH by simp
  qed (use IH in \<open>simp_all add: stops_def skipped_def\<close>)
qed

lemma dated_comparable: "dated f x \<Longrightarrow> comparable f x"
  by (auto simp add: dated_def comparable_def get_timeline_date_def
        split: option.splits pyval.splits)

lemma days_before_month_2020:
  "days_before_month 2020 (Suc 0) = 0"
  "days_before_month 2020 2 = 31"
  "days_before_month 2020 3 = 60"
  by (simp_all add: days_before_month_def days_in_month_def is_leap_def upt_conv_Cons)

lemma utc_seconds_2020:
  "utc_seconds (utc_day 2020 (Suc 0) (Suc 0)) = 63713520000"
  "utc_seconds (utc_day 2020 2 (Suc 0)) = 63716198400"
  "utc_seconds (utc_day 2020 2 15) = 63717408000"
  "utc_seconds (utc_day 2020 3 (Suc 0)) = 63718704000"
  by (simp_all add: utc_seconds_def wall_seconds_def toordinal_def utc_day_def utc_def
        days_before_year_def days_before_month_2020)

lemma utc_seconds_epoch: "utc_seconds epoch_sentinel = 62135683200"
  by (simp add: utc_seconds_def wall_seconds_def toordinal_def epoch_sentinel_def utc_def
        days_before_year_def days_before_month_def)

lemma date_example_post: "get_timeline_date ''date'' (example_post i d) = PDateTime d"
  by (simp add: get_timeline_date_def example_post_def)

lemma dt_less_utc_day:
  "dt_less (utc_day y m d) (utc_day y' m' d') =
     Inr (utc_seconds (utc_day y m d) < utc_seconds (utc_day y' m' d'))"
  by (simp add: dt_less_def utc_seconds_def utc_day_def)

lemma timeline_example_after:
  "timeline_get ''date'' (Some (utc_day 2020 2 15)) None
     [example_post 1 (utc_day 2020 3 1), example_post 2 (utc_day 2020 2 1),
      example_post 3 (utc_day 2020 1 1)]
   = Inr [example_post 1 (utc_day 2020 3 1)]"
  by (simp add: date_example_post cursor_after_def cursor_before_def dt_less_utc_day
        utc_seconds_2020)

lemma timeline_example_before:
  "timeline_get ''date'' None (Some (utc_day 2020 2 15))
     [example_post 1 (utc_day 2020 3 1), example_post 2 (utc_day 2020 2 1),
      example_post 3 (utc_day 2020 1 1)]
   = Inr [example_post 2 (utc_day 2020 2 1), example_post 3 (utc_day 2020 1 1)]"
  by (simp add: date_example_post cursor_after_def cursor_before_def dt_less_utc_day
        utc_seconds_2020)


subsection \<open>Stop and skip\<close>

text \<open>
  Claim C8.  Over instances whose cut-field holds a datetime, with cursors that Python
  can compare with them: the loop stops for good at the first instance whose cut-date
  \<open>after\<close> is strictly greater than, so that neither it nor any later instance is
  returned, and among the instances before that point it leaves out exactly those whose
  cut-date \<open>before\<close> is strictly less than, going on with the rest.  For the cut-dates
  2020-03-01, 2020-02-01, 2020-01-01, \<open>after\<close> = 2020-02-15 gives only the first
  instance, and \<open>before\<close> = 2020-02-15 gives the second and the third.
\<close>

theorem timeline_get_stop_and_skip:
  assumes "aware_cursor after" and "aware_cursor before"
    and "\<forall>x\<in>set result. dated f x"
  shows "timeline_get f after before result =
           Inr (filter (\<lambda>x. \<not> skipped f before x) (takeWhile (\<lambda>x. \<not> stops f after x) result))
       \<and> timeline_get ''date'' (Some (utc_day 2020 2 15)) None
           [example_post 1 (utc_day 2020 3 1), example_post 2 (utc_day 2020 2 1),
            example_post 3 (utc_day 2020 1 1)]
         = Inr [example_post 1 (utc_day 2020 3 1)]
       \<and> timeline_get ''date'' None (Some (utc_day 2020 2 15))
           [example_post 1 (utc_day 2020 3 1), example_post 2 (utc_day 2020 2 1),
            example_post 3 (utc_day 2020 1 1)]
         = Inr [example_post 2 (utc_day 2020 2 1), example_post 3 (utc_day 2020 1 1)]"
proof -
  from assms(3) have "\<forall>x\<in>set result. comparable f x" by (simp add: dated_comparable)
  from timeline_get_window[OF assms(1,2) this] timeline_example_after timeline_example_before
  show ?thesis by simp
qed

theorem timeline_get_stop_and_skip_witness:
  "timeline_get ''date'' (Some (utc_day 2020 2 15)) (Some (utc_day 2020 2 15))
     [example_post 1 (utc_day 2020 3 1), example_post 2 (utc_day 2020 2 1),
      example_post 3 (utc_day 2020 1 1)]
   = Inr []"
proof -
  let ?c = "Some (utc_day 2020 2 15)"
  let ?xs = "[example_post 1 (utc_day 2020 3 1), example_post 2 (utc_day 2020 2 1),
              example_post 3 (utc_day 2020 1 1)]"
  have h1: "aware_cursor ?c" by (simp add: aware_cursor_def utc_day_def)
  have h3: "\<forall>x\<in>set ?xs. dated ''date'' x"
    by (simp add: dated_def example_post_def utc_day_def)
  have "filter (\<lambda>x. \<not> skipped ''date'' ?c x) (takeWhile (\<lambda>x. \<not> stops ''date'' ?c x) ?xs) = []"
    by (simp add: stops_def skipped_def date_example_post utc_seconds_2020)
  with timeline_get_stop_and_skip[OF h1 h1 h3] show ?thesis by simp
qed


subsection \<open>Instances without a usable cut-date\<close>

text \<open>
  Claim C4, as stated, fails: an instance that has no cut-field at all is given the
  epoch sentinel, which is a datetime, so a cursor \<open>after\<close> later than 1970 stops the
  loop on it and the instance is not returned.
\<close>

theorem timeline_get_drops_instance_without_field:
  "timeline_get ''date'' (Some (utc_day 2020 2 15)) None [[(''id'', PInt 1)]] = Inr []"
  using utc_seconds_epoch utc_seconds_2020(3)
  by (simp add: get_timeline_date_def cursor_after_def dt_less_def utc_seconds_def
        epoch_sentinel_def utc_day_def utc_def)

text \<open>
  Claim C4, amended.  An instance whose cut-field is present and holds a value that is
  not a datetime is in the returned list for every combination of \<open>after\<close> and
  \<open>before\<close>, provided the loop reaches it, that is, no earlier instance has a cut-date
  that \<open>after\<close> is strictly greater than (the dates compared being aware).  An
  instance without the cut-field has the epoch sentinel 1970-01-01 UTC as its cut-date
  and is filtered by it like any other.
\<close>

theorem timeline_get_keeps_non_datetime:
  assumes "aware_cursor after" and "aware_cursor before"
    and "\<forall>y\<in>set result. comparable f y"
    and "result = pre @ x # rest"
    and "map_of x f = Some v" and "\<not> is_datetime v"
    and "\<forall>y\<in>set pre. \<not> stops f after y"
  shows "(\<exists>out. timeline_get f after before result = Inr out \<and> x \<in> set out)
       \<and> (\<forall>y. map_of y f = None \<longrightarrow> get_timeline_date f y = PDateTime epoch_sentinel)"
proof -
  from assms(5,6) have nd: "\<not> stops f after x" "\<not> skipped f before x"
    by (cases v; simp add: stops_def skipped_def get_timeline_date_def)+
  from assms(7) have "takeWhile (\<lambda>x. \<not> stops f after x) (pre @ x # rest)
                       = pre @ takeWhile (\<lambda>x. \<not> stops f after x) (x # rest)"
    by (simp add: takeWhile_append2)
  with nd have "x \<in> set (filter (\<lambda>x. \<not> skipped f before x)
                            (takeWhile (\<lambda>x. \<not> stops f after x) (pre @ x # rest)))"
    by simp
  with timeline_get_window[OF assms(1,2,3)] assms(4) show ?thesis
    by (simp add: get_timeline_date_def)
qed

theorem timeline_get_keeps_non_datetime_witness:
  "timeline_get ''date'' (Some (utc_day 2020 2 15)) (Some (utc_day 2020 2 15))
     [[(''id'', PInt 2), (''date'', PNone)], example_post 3 (utc_day 2020 1 1)]
   = Inr [[(''id'', PInt 2), (''date'', PNone)]]"
proof -
  let ?c = "Some (utc_day 2020 2 15)"
  let ?x = "[(''id'', PInt 2), (''date'', PNone)]"
  let ?xs = "[?x, example_post 3 (utc_day 2020 1 1)]"
  have h1: "aware_cursor ?c" by (simp add: aware_cursor_def utc_day_def)
  have h3: "\<forall>y\<in>set ?xs. comparable ''date'' y"
    by (simp add: comparable_def get_timeline_date_def example_post_def utc_day_def)
  have h4: "?xs = [] @ ?x # [example_post 3 (utc_day 2020 1 1)]" by simp
  have h5: "map_of ?x ''date'' = Some PNone" by simp
  have h6: "\<not> is_datetime PNone" by simp
  have h7: "\<forall>y\<in>set []. \<not> stops ''date'' ?c y" by simp
  have d: "get_timeline_date ''date'' ?x = PNone" by (simp add: get_timeline_date_def)
  have r: "timeline_get ''date'' ?c ?c ?xs = Inr [?x]"
    by (simp add: d date_example_post cursor_after_def dt_less_utc_day utc_seconds_2020)
  from timeline_get_keeps_non_datetime[OF h1 h1 h3 h4 h5 h6 h7] r show ?thesis by simp
qed

section \<open>Properties of the response normalizer\<close>

lemma lower_key_id: "lower_key (PStr ''id'') = Inr ''id''"
  by (simp add: lower_key_def lower_char_def)

lemma dict_items_single: "dict_items [(k, v)] = [(PStr k, v)]"
  by (simp add: dict_items_def items_def)

lemma parse_id:
  assumes "get_field cls (local_key cls ''id'') = Some IntegerField" and "i \<noteq> 0"
  shows "parse e cls self [(PStr ''id'', PInt i)]
           = Inr (setattr self (local_key cls ''id'') (PInt i))"
  using assms by (simp add: lower_key_id coerce_def)

lemma parse_response_dict_id:
  assumes "get_field cls (local_key cls ''id'') = Some IntegerField" and "i \<noteq> 0"
  shows "parse_response_dict e cls [(PStr ''id'', PInt i)] extra
           = Inr (setattr (dict_update (new_instance cls) extra) (local_key cls ''id'') (PInt i))"
  by (simp add: parse_response_dict_def parse_id[OF assms] del: parse.simps)

lemma example_id_field:
  "get_field example_cls (local_key example_cls ''id'') = Some IntegerField"
  by (simp add: example_cls_def local_key_def)

lemma pair_of_error: "pair_of x = Inl err \<Longrightarrow> err = TypeError \<or> err = ValueError"
  by (cases x rule: pair_of.cases) (auto split: if_splits list.splits prod.splits)

lemma dict_of_pairs_error:
  "dict_of_pairs acc xs = Inl err \<Longrightarrow> err = TypeError \<or> err = ValueError"
proof (induction xs arbitrary: acc)
  case Nil
  then show ?case by simp
next
  case (Cons x xs)
  then show ?case
    by (cases "pair_of x") (auto dest: pair_of_error split: prod.splits)
qed

lemma py_dict_error: "py_dict v = Inl err \<Longrightarrow> err = TypeError \<or> err = ValueError"
  by (cases v) (auto dest: dict_of_pairs_error split: if_splits)

text \<open>The loop over a list that is split in two: the first part decides unless it succeeds.\<close>

lemma parse_response_list_append:
  "parse_response_list e cls (pre @ ys) extra =
     (case parse_response_list e cls pre extra of
        Inl err \<Rightarrow> Inl err
      | Inr a \<Rightarrow> map_sum id ((@) a) (parse_response_list e cls ys extra))"
proof (induction pre)
  case Nil
  show ?case by (cases "parse_response_list e cls ys extra") simp_all
next
  case (Cons x pre)
  show ?case
  proof (cases "is_int (unwrap x)")
    case True
    with Cons show ?thesis by simp
  next
    case False
    with Cons show ?thesis
      by (cases "parse_response_list e cls ys extra") (auto split: sum.splits)
  qed
qed


subsection \<open>The example response\<close>

text \<open>
  Claim C9.  For a model whose identity field is an integer field, the response
  \<^verbatim>\<open>[5, {"id": 1}, [{"id": 2}]]\<close> gives exactly two instances, with ids 1 and 2 in
  that order: the integer 5 is skipped and the one-element list is replaced by its
  item.  Each instance is a fresh one with the extra fields and the id set.
\<close>

theorem parse_response_list_example:
  assumes "get_field cls (local_key cls ''id'') = Some IntegerField"
  shows "parse_response_list e cls
           [PInt 5, PDict [(''id'', PInt 1)], PList [PDict [(''id'', PInt 2)]]] extra
         = Inr [setattr (dict_update (new_instance cls) extra) (local_key cls ''id'') (PInt 1),
                setattr (dict_update (new_instance cls) extra) (local_key cls ''id'') (PInt 2)]"
  by (simp add: dict_items_single parse_response_dict_id[OF assms])

theorem parse_response_list_example_witness:
  "parse_response_list example_env example_cls
     [PInt 5, PDict [(''id'', PInt 1)], PList [PDict [(''id'', PInt 2)]]] []
   = Inr [[(''id'', PInt 1), (''date'', PNone), (''owner_id'', PNone)],
          [(''id'', PInt 2), (''date'', PNone), (''owner_id'', PNone)]]"
  using parse_response_list_example[OF example_id_field, of example_env "[]"]
  by (simp add: dict_update_def items_def setattr_def example_cls_def local_key_def)


subsection \<open>A malformed element\<close>

text \<open>
  Claim C3, as stated, fails: the exception of the failed \<^verbatim>\<open>dict(resource)\<close> is
  logged and raised again as it is, so the caller sees a \<^verbatim>\<open>TypeError\<close> (here, for
  \<^verbatim>\<open>None\<close>) and not a Content error.
\<close>

theorem parse_response_list_none_is_type_error:
  "parse_response_list example_env example_cls [PDict [(''id'', PInt 1)], PNone] []
     = Inl TypeError
   \<and> parse_response_list example_env example_cls [PDict [(''id'', PInt 1)], PNone] []
     \<noteq> Inl OdnoklassnikiContentError"
  by (simp add: dict_items_single parse_response_dict_id[OF example_id_field])

text \<open>
  Claim C3, amended.  When an element, after a non-empty list has been replaced by its
  first item, is not an integer and cannot be coerced to a mapping, and the elements
  before it were processed, the whole operation ends with the exception of the
  coercion, a \<^verbatim>\<open>TypeError\<close> or a \<^verbatim>\<open>ValueError\<close>, and returns no partial result.
\<close>

theorem parse_response_list_bad_element:
  assumes "parse_response_list e cls pre extra = Inr parsed_before"
    and "\<not> is_int (unwrap x)"
    and "py_dict (unwrap x) = Inl err"
  shows "parse_response_list e cls (pre @ x # rest) extra = Inl err
       \<and> (err = TypeError \<or> err = ValueError)"
proof -
  from assms(2,3) have "parse_response_list e cls (x # rest) extra = Inl err" by simp
  with assms(1) have "parse_response_list e cls (pre @ x # rest) extra = Inl err"
    by (simp add: parse_response_list_append)
  with py_dict_error[OF assms(3)] show ?thesis by simp
qed

theorem parse_response_list_bad_element_witness:
  "parse_response_list example_env example_cls
     [PDict [(''id'', PInt 1)], PStr ''abc'', PDict [(''id'', PInt 2)]] []
   = Inl ValueError"
proof -
  have h1: "parse_response_list example_env example_cls [PDict [(''id'', PInt 1)]] []
              = Inr [setattr (dict_update (new_instance example_cls) [])
                       (local_key example_cls ''id'') (PInt 1)]"
    by (simp add: dict_items_single parse_response_dict_id[OF example_id_field])
  have h2: "\<not> is_int (unwrap (PStr ''abc''))" by simp
  have h3: "py_dict (unwrap (PStr ''abc'')) = Inl ValueError" by simp
  from parse_response_list_bad_element[OF h1 h2 h3, of "[PDict [(''id'', PInt 2)]]"]
  show ?thesis by simp
qed

section \<open>Properties of the field coercer: references\<close>

lemma lower_key_text: "lower_key (PStr key) = Inr (map lower_char key)"
  by (simp add: lower_key_def)

lemma lower_owner: "map lower_char ''owner'' = ''owner''"
  by (simp add: lower_char_def)

lemma example_owner_field:
  "get_field example_cls (local_key example_cls ''owner'') = Some (ForeignKey ''Owner'' True)"
  by (simp add: example_cls_def local_key_def)

text \<open>
  What the code does with a nested mapping: the related class parses it into an
  instance that is dropped, and \<^verbatim>\<open>None\<close>, the result of a function without
  \<^verbatim>\<open>return\<close>, is assigned to the field.
\<close>

lemma parse_nested_mapping_sets_none:
  "parse example_env example_cls (new_instance example_cls)
     [(PStr ''owner'', PDict [(''id'', PInt 2)])]
   = Inr [(''id'', PNone), (''date'', PNone), (''owner_id'', PNone), (''_owner_cache'', PNone)]"
proof -
  have nested: "parse example_env (rel_class example_env ''Owner'')
                  (new_instance (rel_class example_env ''Owner'')) [(PStr ''id'', PInt 2)]
                = Inr (setattr (new_instance example_cls) (local_key example_cls ''id'') (PInt 2))"
    using parse_id[OF example_id_field, of 2 example_env "new_instance example_cls"]
    by (simp add: example_env_def del: parse.simps)
  have "parse example_env example_cls (new_instance example_cls)
          [(PStr ''owner'', PDict [(''id'', PInt 2)])]
        = descriptor_set (pk_attname (rel_class example_env ''Owner'')) ''Owner'' True
            (new_instance example_cls) (local_key example_cls ''owner'') PNone"
    using nested
    by (subst parse.simps)
       (simp add: lower_key_text lower_char_def example_owner_field dict_items_single
          descriptor_set_def del: parse.simps(2))
  then show ?thesis
    by (simp add: descriptor_set_def cache_name_def example_cls_def local_key_def setattr_def)
qed


subsection \<open>Scalar references\<close>

text \<open>
  Claim C5, as stated, fails: a scalar that is falsy (here \<^verbatim>\<open>0\<close>) is not looked up,
  and its assignment to the relation field raises \<^verbatim>\<open>ValueError\<close>; nothing is stored
  under the name with the suffix.
\<close>

theorem parse_reference_zero_raises:
  "parse example_env example_cls (new_instance example_cls) [(PStr ''owner'', PInt 0)]
   = Inl ValueError"
  by (simp add: lower_key_text lower_char_def example_owner_field descriptor_set_def)

text \<open>
  Claim C5, amended.  For a reference field (foreign key or one-to-one) found under the
  lower-cased, renamed key: a truthy raw value that is not a mapping and has no
  persisted related record is stored under the field name with the suffix \<^verbatim>\<open>_id\<close>;
  if the related record exists, it is assigned to the field, which stores its primary
  key under the name with the suffix and the record itself in the cache of the field;
  a falsy raw value other than \<^verbatim>\<open>None\<close> is not looked up and its assignment raises
  \<^verbatim>\<open>ValueError\<close>.
\<close>

theorem parse_reference_field:
  assumes "get_field cls (local_key cls (map lower_char key)) = Some field"
    and "rel_to field = Some rel"
  shows "(truthy v \<and> \<not> is_dict v \<and> objects_get e rel v = Inl DoesNotExist \<longrightarrow>
            parse e cls self [(PStr key, v)]
              = Inr (setattr self (local_key cls (map lower_char key) @ ''_id'') v))
       \<and> (truthy v \<and> \<not> is_dict v \<and> objects_get e rel v = Inr (PObj rel attrs) \<longrightarrow>
            parse e cls self [(PStr key, v)]
              = Inr (setattr
                       (setattr self (local_key cls (map lower_char key) @ ''_id'')
                          (case map_of attrs (pk_attname (rel_class e rel)) of
                             None \<Rightarrow> PNone | Some i \<Rightarrow> i))
                       (cache_name (local_key cls (map lower_char key))) (PObj rel attrs)))
       \<and> (\<not> truthy v \<and> v \<noteq> PNone \<longrightarrow>
            parse e cls self [(PStr key, v)] = Inl ValueError)"
  using assms by (cases v) (auto simp add: lower_key_text descriptor_set_def)

theorem parse_reference_field_witness:
  "parse example_env example_cls (new_instance example_cls) [(PStr ''owner'', PInt 42)]
   = Inr [(''id'', PNone), (''date'', PNone), (''owner_id'', PInt 42)]"
proof -
  have h1: "get_field example_cls (local_key example_cls (map lower_char ''owner''))
              = Some (ForeignKey ''Owner'' True)"
    by (simp add: lower_char_def example_owner_field)
  have h2: "rel_to (ForeignKey ''Owner'' True) = Some ''Owner''" by simp
  have h3: "truthy (PInt 42) \<and> \<not> is_dict (PInt 42)
              \<and> objects_get example_env ''Owner'' (PInt 42) = Inl DoesNotExist"
    by (simp add: example_env_def)
  from parse_reference_field[OF h1 h2, where v = "PInt 42" and e = example_env
         and self = "new_instance example_cls"] h3
  have "parse example_env example_cls (new_instance example_cls) [(PStr ''owner'', PInt 42)]
          = Inr (setattr (new_instance example_cls)
                   (local_key example_cls (map lower_char ''owner'') @ ''_id'') (PInt 42))"
    by blast
  then show ?thesis
    by (simp add: lower_char_def example_cls_def local_key_def setattr_def)
qed
section \<open>Properties of the field coercer: text timestamps\<close>

lemma bind_Inr: "bind (Inr x) f = f x"
  by (simp add: bind_def)

lemma bind_assoc: "bind (bind r f) g = bind r (\<lambda>x. bind (f x) g)"
  by (cases r) (simp_all add: bind_def)

lemma to_opt_bind: "to_opt (bind r f) = Option.bind (to_opt r) (\<lambda>x. to_opt (f x))"
  by (cases r) (simp_all add: bind_def to_opt_def)

text \<open>
  After a successful construction the assertion on the year of the localized value is
  an assertion on the year that was read.
\<close>

lemma localize_checked:
  "to_opt (bind (datetime_new y m d hh mm ss) (\<lambda>dt.
      bind (localize tzdb (PDateTime dt)) (\<lambda>d.
        if year d \<noteq> 1970 then Inr d else Inl AssertionError)))
   = Option.bind (to_opt (datetime_new y m d hh mm ss)) (\<lambda>dt.
       Option.bind (tzdb dt) (\<lambda>off. if y = 1970 then None else Some (in_moscow off dt)))"
proof (cases "datetime_new y m d hh mm ss")
  case (Inl err)
  then show ?thesis by (simp add: bind_def to_opt_def)
next
  case (Inr dt)
  then have "year dt = nat y" "1 \<le> y" and naive: "tz dt = None"
    by (auto simp add: datetime_new_def split: if_splits)
  then have "year dt = 1970 \<longleftrightarrow> y = 1970" by auto
  with Inr naive show ?thesis
    by (cases "tzdb dt") (simp_all add: bind_def to_opt_def localize_def in_moscow_def)
qed

lemma localize_checked_opt:
  "Option.bind (to_opt (datetime_new y m d hh mm ss)) (\<lambda>x.
     Option.bind (to_opt (localize tzdb (PDateTime x))) (\<lambda>x.
       to_opt (if year x \<noteq> 1970 then Inr x else Inl AssertionError)))
   = Option.bind (to_opt (datetime_new y m d hh mm ss)) (\<lambda>dt.
       Option.bind (tzdb dt) (\<lambda>off. if y = 1970 then None else Some (in_moscow off dt)))"
  using localize_checked[of y m d hh mm ss tzdb] by (simp add: to_opt_bind)

lemma try_text_positional:
  assumes "length s = 19 \<or> length s = 16 \<or> length s = 10"
  shows "to_opt (try_text tzdb s) =
     Option.bind (positional s) (\<lambda>(y, m, d, hh, mm, ss).
       Option.bind (to_opt (datetime_new y m d hh mm ss)) (\<lambda>dt.
         Option.bind (tzdb dt) (\<lambda>off. if y = 1970 then None else Some (in_moscow off dt))))"
proof -
  consider "length s = 19" | "length s = 16" | "length s = 10" using assms by blast
  then show ?thesis
  proof cases
    case 1
    then show ?thesis
      by (simp add: try_text_def datetime_of_text_def positional_def field_int_def
            bind_assoc bind_Inr to_opt_bind localize_checked_opt)
  next
    case 2
    then show ?thesis
      by (simp add: try_text_def datetime_of_text_def positional_def field_int_def
            bind_assoc bind_Inr to_opt_bind localize_checked_opt)
  next
    case 3
    then show ?thesis
      by (simp add: try_text_def datetime_of_text_def positional_def field_int_def
            bind_assoc bind_Inr to_opt_bind localize_checked_opt)
  qed
qed

lemma coerce_datetime_long_text:
  "10 \<le> length s \<Longrightarrow>
     coerce_datetime tzdb (PStr s) = (case to_opt (try_text tzdb s) of None \<Rightarrow> PNone | Some d \<Rightarrow> PDateTime d)"
  by (simp add: coerce_datetime_def to_opt_def split: sum.splits)


subsection \<open>Texts of length 19, 16 and 10\<close>

text \<open>
  Claim C6.  For a date field and a text of length 19, 16 or 10, the coerced value is
  the datetime built from the integers read positionally, with the Europe/Moscow zone
  attached, provided the reading and the construction succeed, the zone can be
  attached and the year read is not 1970; it is \<^verbatim>\<open>None\<close> in every other case, in
  particular when the positional parse fails or the year is 1970.  No exception leaves
  the coercion: \<^verbatim>\<open>parse\<close> assigns the coerced value and returns.
\<close>

theorem coerce_datetime_text:
  assumes "length s = 19 \<or> length s = 16 \<or> length s = 10"
    and "f = DateTimeField \<or> f = DateField"
  shows "coerce e f (PStr s) =
           (case positional s of
              None \<Rightarrow> PNone
            | Some (y, m, d, hh, mm, ss) \<Rightarrow>
                (case datetime_new y m d hh mm ss of
                   Inl err \<Rightarrow> PNone
                 | Inr dt \<Rightarrow>
                     (case moscow e dt of
                        None \<Rightarrow> PNone
                      | Some off \<Rightarrow> if y = 1970 then PNone else PDateTime (in_moscow off dt))))
       \<and> (get_field cls (local_key cls (map lower_char key)) = Some f \<longrightarrow>
            parse e cls self [(PStr key, PStr s)]
              = Inr (setattr self (local_key cls (map lower_char key)) (coerce e f (PStr s))))"
proof -
  from assms(1) have len: "10 \<le> length s" by auto
  from assms(2) have c: "coerce e f (PStr s) = coerce_datetime (moscow e) (PStr s)"
    by (auto simp add: coerce_def)
  have "coerce_datetime (moscow e) (PStr s) =
          (case positional s of
              None \<Rightarrow> PNone
            | Some (y, m, d, hh, mm, ss) \<Rightarrow>
                (case datetime_new y m d hh mm ss of
                   Inl err \<Rightarrow> PNone
                 | Inr dt \<Rightarrow>
                     (case moscow e dt of
                        None \<Rightarrow> PNone
                      | Some off \<Rightarrow> if y = 1970 then PNone else PDateTime (in_moscow off dt))))"
    unfolding coerce_datetime_long_text[OF len] try_text_positional[OF assms(1)]
    by (auto simp add: to_opt_def split: option.splits sum.splits)
  with c have first: "coerce e f (PStr s) =
          (case positional s of
              None \<Rightarrow> PNone
            | Some (y, m, d, hh, mm, ss) \<Rightarrow>
                (case datetime_new y m d hh mm ss of
                   Inl err \<Rightarrow> PNone
                 | Inr dt \<Rightarrow>
                     (case moscow e dt of
                        None \<Rightarrow> PNone
                      | Some off \<Rightarrow> if y = 1970 then PNone else PDateTime (in_moscow off dt))))"
    by simp
  from assms(2) have "rel_to f = None" by auto
  then have second: "get_field cls (local_key cls (map lower_char key)) = Some f \<longrightarrow>
            parse e cls self [(PStr key, PStr s)]
              = Inr (setattr self (local_key cls (map lower_char key)) (coerce e f (PStr s)))"
    by (simp add: lower_key_text)
  from first second show ?thesis by (rule conjI)
qed

lemmas int_of_string_eval =
  int_of_string_def strip_def is_space_def int_of_digits_def is_digit_def digits_value_def

theorem coerce_datetime_text_witness:
  "coerce example_env DateTimeField (PStr ''2020-03-01 12:30:45'')
   = PDateTime \<lparr>year = 2020, month = 3, day = 1, hour = 12, minute = 30, second = 45,
                 tz = Some \<lparr>zone = ''Europe/Moscow'', utcoffset = 10800\<rparr>\<rparr>"
proof -
  let ?s = "''2020-03-01 12:30:45''"
  have h1: "length ?s = 19 \<or> length ?s = 16 \<or> length ?s = 10" by simp
  have h2: "DateTimeField = DateTimeField \<or> DateTimeField = DateField" by simp
  have p: "positional ?s = Some (2020, 3, 1, 12, 30, 45)"
    by (simp add: positional_def field_int_def to_opt_def slice_def int_of_string_eval)
  have dn: "datetime_new 2020 3 1 12 30 45
              = Inr \<lparr>year = 2020, month = 3, day = 1, hour = 12, minute = 30, second = 45,
                     tz = None\<rparr>"
    by (simp add: datetime_new_def days_in_month_def)
  from coerce_datetime_text[OF h1 h2, of example_env] p dn show ?thesis
    by (simp add: example_env_def in_moscow_def)
qed

text \<open>A date in 1970 and a text that is not a date both give \<^verbatim>\<open>None\<close>.\<close>

lemma coerce_datetime_text_examples:
  "coerce example_env DateTimeField (PStr ''1970-05-05'') = PNone"
  "coerce example_env DateTimeField (PStr ''2020-13-01'') = PNone"
  "coerce example_env DateTimeField (PStr ''1400000000'') = PNone"
  by (simp_all add: coerce_def coerce_datetime_def try_text_def datetime_of_text_def bind_def
        slice_def int_of_string_eval datetime_new_def days_in_month_def localize_def
        example_env_def)

section \<open>Properties of the field coercer: counts of epoch seconds\<close>

subsection \<open>The calendar\<close>

text \<open>
  The days before a year grow by the length of the year, so the search through the
  years and the months keeps the ordinal of the day, and the timestamp of the datetime
  found is the count that was given.
\<close>

lemma mod_coarser:
  fixes n :: nat
  assumes "a dvd b" and "n mod b = 0"
  shows "n mod a = 0"
proof -
  from assms(2) have "b dvd n" by (simp add: dvd_eq_mod_eq_0)
  with assms(1) have "a dvd n" by (rule dvd_trans)
  then show ?thesis by (simp add: dvd_eq_mod_eq_0)
qed

lemma days_before_year_alt:
  "days_before_year (Suc q) + q div 100 = q * 365 + q div 4 + q div 400"
proof -
  have "q div 100 \<le> q div 4" by (rule div_le_mono2) simp_all
  then have "q div 100 \<le> q * 365 + q div 4" by (rule trans_le_add2)
  then show ?thesis by (simp add: days_before_year_def)
qed

lemma days_before_year_Suc:
  assumes "1 \<le> y"
  shows "days_before_year (Suc y) = days_before_year y + days_in_year y"
proof -
  obtain p where p: "y = Suc p" using assms by (cases y) auto
  define X where "X = days_before_year (Suc (Suc p))"
  define Y where "Y = days_before_year (Suc p)"
  define a where "a = p div 4"
  define b where "b = p div 100"
  define c where "c = p div 400"
  have m1: "Suc p mod 100 = 0 \<Longrightarrow> Suc p mod 4 = 0"
    by (rule mod_coarser[of 4 100]) simp_all
  have m2: "Suc p mod 400 = 0 \<Longrightarrow> Suc p mod 100 = 0"
    by (rule mod_coarser[of 100 400]) simp_all
  have e1: "X + Suc p div 100 = Suc p * 365 + Suc p div 4 + Suc p div 400"
    unfolding X_def by (rule days_before_year_alt)
  have e2: "Y + b = p * 365 + a + c"
    unfolding Y_def a_def b_def c_def by (rule days_before_year_alt)
  have d4: "Suc p div 4 = (if Suc p mod 4 = 0 then Suc a else a)"
    unfolding a_def by (rule div_Suc)
  have d100: "Suc p div 100 = (if Suc p mod 100 = 0 then Suc b else b)"
    unfolding b_def by (rule div_Suc)
  have d400: "Suc p div 400 = (if Suc p mod 400 = 0 then Suc c else c)"
    unfolding c_def by (rule div_Suc)
  have "X = Y + days_in_year (Suc p)"
  proof (cases "Suc p mod 4 = 0")
    case False
    with m1 have n100: "Suc p mod 100 \<noteq> 0" by blast
    with m2 have n400: "Suc p mod 400 \<noteq> 0" by blast
    from e1 e2 False n100 n400 show ?thesis
      unfolding d4 d100 d400 days_in_year_def is_leap_def by simp
  next
    case True
    show ?thesis
    proof (cases "Suc p mod 100 = 0")
      case False
      with m2 have n400: "Suc p mod 400 \<noteq> 0" by blast
      from e1 e2 True False n400 show ?thesis
        unfolding d4 d100 d400 days_in_year_def is_leap_def by simp
    next
      case h: True
      show ?thesis
      proof (cases "Suc p mod 400 = 0")
        case True
        with e1 e2 h \<open>Suc p mod 4 = 0\<close> show ?thesis
          unfolding d4 d100 d400 days_in_year_def is_leap_def by simp
      next
        case False
        with e1 e2 h \<open>Suc p mod 4 = 0\<close> show ?thesis
          unfolding d4 d100 d400 days_in_year_def is_leap_def by simp
      qed
    qed
  qed
  then show ?thesis by (simp add: p X_def Y_def)
qed

lemma days_before_year_step: "days_before_year n \<le> days_before_year (Suc n)"
proof (cases "n = 0")
  case True
  then show ?thesis by (simp add: days_before_year_def)
next
  case False
  then have "1 \<le> n" by simp
  from days_before_year_Suc[OF this] show ?thesis by simp
qed

lemma days_before_year_mono: "a \<le> b \<Longrightarrow> days_before_year a \<le> days_before_year b"
  by (rule lift_Suc_mono_le[of days_before_year, OF days_before_year_step])

lemma year_from_days_inv:
  "1 \<le> y \<Longrightarrow> year_from_days y n = (y', n') \<Longrightarrow>
     days_before_year y' + n' = days_before_year y + n \<and> n' < days_in_year y' \<and> y \<le> y'"
proof (induction y n rule: year_from_days.induct)
  case (1 y n)
  show ?case
  proof (cases "n < days_in_year y")
    case True
    from "1.prems"(2) True have "(y, n) = (y', n')"
      by (subst (asm) year_from_days.simps) simp
    with True show ?thesis by simp
  next
    case False
    from "1.prems"(2) False have r: "year_from_days (Suc y) (n - days_in_year y) = (y', n')"
      by (subst (asm) year_from_days.simps) simp
    have "1 \<le> Suc y" by simp
    from "1.IH"[OF False this r]
    have "days_before_year y' + n' = days_before_year (Suc y) + (n - days_in_year y)
            \<and> n' < days_in_year y' \<and> Suc y \<le> y'" .
    with days_before_year_Suc[OF "1.prems"(1)] False show ?thesis by simp
  qed
qed

lemma days_before_month_Suc:
  "1 \<le> m \<Longrightarrow> days_before_month y (Suc m) = days_before_month y m + days_in_month y m"
  by (simp add: days_before_month_def)

lemma month_from_days_inv:
  "1 \<le> m \<Longrightarrow> month_from_days y m n = (m', n') \<Longrightarrow>
     days_before_month y m' + n' = days_before_month y m + n"
proof (induction y m n rule: month_from_days.induct)
  case (1 y m n)
  show ?case
  proof (cases "n < days_in_month y m")
    case True
    from "1.prems"(2) True have "(m, n) = (m', n')"
      by (subst (asm) month_from_days.simps) simp
    then show ?thesis by simp
  next
    case False
    from "1.prems"(2) False have r: "month_from_days y (Suc m) (n - days_in_month y m) = (m', n')"
      by (subst (asm) month_from_days.simps) simp
    have "1 \<le> Suc m" by simp
    from "1.IH"[OF False this r]
    have "days_before_month y m' + n' = days_before_month y (Suc m) + (n - days_in_month y m)" .
    with days_before_month_Suc[OF "1.prems"(1)] False show ?thesis by simp
  qed
qed

lemma days_before_year_1970: "days_before_year 1970 = 719162"
  by (simp add: days_before_year_def)

lemma days_before_year_10000: "days_before_year 10000 = 3652059"
  by (simp add: days_before_year_def)

lemma time_of_day:
  fixes r :: nat
  shows "r div 3600 * 3600 + r mod 3600 div 60 * 60 + r mod 60 = r"
proof -
  have "r mod 3600 mod 60 = r mod 60" by (rule mod_mod_cancel) simp
  with div_mult_mod_eq[of "r mod 3600" 60]
  have a: "r mod 3600 div 60 * 60 + r mod 60 = r mod 3600" by simp
  have b: "r div 3600 * 3600 + r mod 3600 = r" by (rule div_mult_mod_eq)
  from a b show ?thesis by (simp only: add.assoc)
qed

lemma year_from_days_range:
  assumes yf: "year_from_days 1970 n = (y, doy)"
  shows "y \<le> 9999 \<longleftrightarrow> n < 2932897"
proof -
  have "1 \<le> (1970::nat)" by simp
  from year_from_days_inv[OF this yf]
  have a: "days_before_year y + doy = 719162 + n" and b: "doy < days_in_year y"
    and c: "1970 \<le> y"
    by (simp_all add: days_before_year_1970)
  show ?thesis
  proof
    assume "y \<le> 9999"
    then have "Suc y \<le> 10000" by simp
    from days_before_year_mono[OF this] have "days_before_year (Suc y) \<le> 3652059"
      by (simp add: days_before_year_10000)
    moreover from c have "1 \<le> y" by simp
    then have "days_before_year (Suc y) = days_before_year y + days_in_year y"
      by (rule days_before_year_Suc)
    ultimately show "n < 2932897" using a b by simp
  next
    assume n: "n < 2932897"
    show "y \<le> 9999"
    proof (rule ccontr)
      assume "\<not> y \<le> 9999"
      then have "10000 \<le> y" by simp
      from days_before_year_mono[OF this] have "3652059 \<le> days_before_year y"
        by (simp add: days_before_year_10000)
      with a n show False by simp
    qed
  qed
qed

lemma utcfromtimestamp_result:
  assumes yf: "year_from_days 1970 (t div 86400) = (y, doy)"
    and mf: "month_from_days y 1 doy = (m, dm)"
    and d: "d = \<lparr>year = y, month = m, day = Suc dm, hour = t mod 86400 div 3600,
                 minute = t mod 86400 mod 3600 div 60, second = t mod 86400 mod 60,
                 tz = Some utc\<rparr>"
  shows "timestamp d = int t"
proof -
  have "1 \<le> (1970::nat)" by simp
  from year_from_days_inv[OF this yf]
  have a: "days_before_year y + doy = 719162 + t div 86400"
    by (simp add: days_before_year_1970)
  have "1 \<le> (1::nat)" by simp
  from month_from_days_inv[OF this mf]
  have b: "days_before_month y m + dm = days_before_month y 1 + doy" .
  have c: "days_before_month y 1 = 0" by (simp add: days_before_month_def)
  define k where "k = toordinal d"
  define r where "r = t mod 86400"
  from a b c have k: "k = 719163 + t div 86400"
    by (simp add: k_def toordinal_def d)
  have tzd: "tz d = Some utc" by (simp add: d)
  have "wall_seconds d
          = int (k * 86400 + (r div 3600 * 3600 + r mod 3600 div 60 * 60 + r mod 60))"
    by (simp add: wall_seconds_def k_def r_def d)
  also have "\<dots> = int (k * 86400 + r)" by (simp only: time_of_day)
  also have "\<dots> = int (719163 * 86400 + t)"
    using div_mult_mod_eq[of t 86400] by (simp add: k r_def)
  finally show ?thesis by (simp add: timestamp_def tzd utc_def)
qed

lemma utcfromtimestamp_in_range:
  assumes "t < 253402300800"
  shows "\<exists>d. utcfromtimestamp t = Inr d \<and> timestamp (d\<lparr>tz := Some utc\<rparr>) = int t"
proof -
  obtain y doy where yf: "year_from_days 1970 (t div 86400) = (y, doy)"
    by (cases "year_from_days 1970 (t div 86400)")
  obtain m dm where mf: "month_from_days y 1 doy = (m, dm)"
    by (cases "month_from_days y 1 doy")
  from assms have "t div 86400 < 2932897" by (simp add: div_less_iff_less_mult)
  with year_from_days_range[OF yf] have "y \<le> 9999" by simp
  then have "utcfromtimestamp t
               = Inr \<lparr>year = y, month = m, day = Suc dm, hour = t mod 86400 div 3600,
                      minute = t mod 86400 mod 3600 div 60, second = t mod 86400 mod 60,
                      tz = None\<rparr>"
    using mf by (simp add: utcfromtimestamp_def yf Let_def del: year_from_days.simps month_from_days.simps)
  moreover have "timestamp \<lparr>year = y, month = m, day = Suc dm, hour = t mod 86400 div 3600,
                      minute = t mod 86400 mod 3600 div 60, second = t mod 86400 mod 60,
                      tz = Some utc\<rparr> = int t"
    by (rule utcfromtimestamp_result[OF yf mf refl])
  ultimately show ?thesis by simp
qed

lemma utcfromtimestamp_out_of_range:
  assumes "253402300800 \<le> t"
  shows "utcfromtimestamp t = Inl ValueError"
proof -
  obtain y doy where yf: "year_from_days 1970 (t div 86400) = (y, doy)"
    by (cases "year_from_days 1970 (t div 86400)")
  obtain m dm where mf: "month_from_days y 1 doy = (m, dm)"
    by (cases "month_from_days y 1 doy")
  from assms have "\<not> t div 86400 < 2932897" by (simp add: div_less_iff_less_mult)
  with year_from_days_range[OF yf] have "\<not> y \<le> 9999" by simp
  then show ?thesis using mf by (simp add: utcfromtimestamp_def yf Let_def del: year_from_days.simps month_from_days.simps)
qed

subsection \<open>The second \<^verbatim>\<open>try\<close> block\<close>

lemma try_epoch_cases:
  "(case py_int value of
      Inl err \<Rightarrow> try_epoch value = Inl err
    | Inr i \<Rightarrow>
        if 0 < i \<and> i \<le> max_epoch
        then (\<exists>d. try_epoch value = Inr d \<and> tz d = Some utc \<and> timestamp d = i)
        else (\<exists>err. try_epoch value = Inl err))"
proof (cases "py_int value")
  case (Inl err)
  then show ?thesis by (simp add: try_epoch_def bind_def)
next
  case (Inr i)
  show ?thesis
  proof (cases "0 < i")
    case False
    with Inr show ?thesis by (simp add: try_epoch_def bind_def)
  next
    case pos: True
    show ?thesis
    proof (cases "i \<le> max_epoch")
      case True
      with pos have "nat i < 253402300800" by (simp add: max_epoch_def)
      from utcfromtimestamp_in_range[OF this] obtain d
        where d: "utcfromtimestamp (nat i) = Inr d"
          and t: "timestamp (d\<lparr>tz := Some utc\<rparr>) = int (nat i)" by blast
      from Inr pos d have "try_epoch value = Inr (d\<lparr>tz := Some utc\<rparr>)"
        by (simp add: try_epoch_def bind_def)
      with t pos Inr True show ?thesis by simp
    next
      case False
      with pos have "253402300800 \<le> nat i" by (simp add: max_epoch_def)
      from utcfromtimestamp_out_of_range[OF this] Inr pos False show ?thesis
        by (simp add: try_epoch_def bind_def)
    qed
  qed
qed

lemma coerce_datetime_other_text:
  assumes "long_text value" and "\<not> text_timestamp value"
  shows "coerce_datetime tzdb value = PNone"
  using assms
  by (cases "value")
     (simp_all add: long_text_def text_timestamp_def coerce_datetime_def try_text_def
        datetime_of_text_def bind_def localize_def)

lemma coerce_datetime_try_epoch:
  assumes "\<not> long_text value"
  shows "coerce_datetime tzdb value
           = (case try_epoch value of Inl err \<Rightarrow> PNone | Inr d \<Rightarrow> PDateTime d)"
  using assms by (cases "value") (simp_all add: long_text_def coerce_datetime_def)


subsection \<open>Values that are not text timestamps\<close>

text \<open>
  A positive count beyond the last second of year 9999 is not converted:
  \<^verbatim>\<open>utcfromtimestamp\<close> raises and the bare \<^verbatim>\<open>except\<close> stores \<^verbatim>\<open>None\<close>.
\<close>

theorem coerce_datetime_epoch_year_10000:
  "coerce example_env DateTimeField (PInt 253402300800) = PNone"
proof -
  have "utcfromtimestamp 253402300800 = Inl ValueError"
    by (rule utcfromtimestamp_out_of_range) simp
  then show ?thesis
    by (simp add: coerce_def coerce_datetime_def try_epoch_def bind_def)
qed

text \<open>
  A text of eleven digits is long enough for the first \<^verbatim>\<open>try\<close> block, where no
  datetime is built from it and \<^verbatim>\<open>localize\<close> raises on the text itself.
\<close>

lemma coerce_datetime_long_digits:
  "coerce example_env DateTimeField (PStr ''12345678901'') = PNone"
  by (simp add: coerce_def coerce_datetime_def try_text_def datetime_of_text_def bind_def
        localize_def)

text \<open>
  Claim C7.  For a date field and a raw value that is not a text of length 19, 16 or
  10: a text of length 10 or more gives \<^verbatim>\<open>None\<close>; any other value is converted with
  \<^verbatim>\<open>int\<close>, and gives \<^verbatim>\<open>None\<close> when the conversion fails, when the count is zero or
  negative and when it is beyond the last second of year 9999; a positive count up to
  that second gives a datetime in UTC whose timestamp is the count.
\<close>

theorem coerce_datetime_epoch:
  assumes "f = DateTimeField \<or> f = DateField"
    and "\<not> text_timestamp value"
  shows "if long_text value then coerce e f value = PNone
         else (case py_int value of
                 Inl err \<Rightarrow> coerce e f value = PNone
               | Inr i \<Rightarrow>
                   if 0 < i \<and> i \<le> max_epoch
                   then (\<exists>d. coerce e f value = PDateTime d \<and> tz d = Some utc
                              \<and> timestamp d = i)
                   else coerce e f value = PNone)"
proof -
  from assms(1) have c: "coerce e f value = coerce_datetime (moscow e) value"
    by (auto simp add: coerce_def)
  show ?thesis
  proof (cases "long_text value")
    case True
    with coerce_datetime_other_text[OF True assms(2)] c show ?thesis by simp
  next
    case False
    note t = coerce_datetime_try_epoch[OF False, of "moscow e"]
    from try_epoch_cases[of "value"] False c t show ?thesis
      by (auto split: sum.splits if_splits)
  qed
qed

theorem coerce_datetime_epoch_witness:
  "\<exists>d. coerce example_env DateTimeField (PInt 86400) = PDateTime d \<and> tz d = Some utc
        \<and> timestamp d = 86400"
  using coerce_datetime_epoch[of DateTimeField "PInt 86400" example_env]
  by (simp add: text_timestamp_def long_text_def max_epoch_def)
section \<open>Properties of the fetch orchestrator: stable storage identity\<close>

subsection \<open>Lookup by remote identity and the store\<close>

lemma remote_pk_dict_Cons:
  assumes "remote_pk_dict (k # ks) inst = Inr kwargs"
  obtains v kw where "map_of inst k = Some v" and "remote_pk_dict ks inst = Inr kw"
    and "kwargs = (k, v) # kw"
proof -
  from assms obtain v where g: "getattr inst k = Inr v"
    by (cases "getattr inst k") simp_all
  with assms obtain kw where r: "remote_pk_dict ks inst = Inr kw" and "kwargs = (k, v) # kw"
    by (cases "remote_pk_dict ks inst") auto
  with g that show thesis by (simp add: getattr_Inr_iff)
qed

lemma remote_pk_dict_matches:
  "remote_pk_dict names inst = Inr kwargs \<Longrightarrow>
     matches kwargs r \<longleftrightarrow> (\<forall>k\<in>set names. map_of r k = map_of inst k)"
proof (induction names arbitrary: kwargs)
  case Nil
  then show ?case by (simp add: matches_def)
next
  case (Cons k ks)
  from Cons.prems obtain v kw where v: "map_of inst k = Some v"
    and r: "remote_pk_dict ks inst = Inr kw" and kw: "kwargs = (k, v) # kw"
    by (rule remote_pk_dict_Cons)
  from Cons.IH[OF r] have "matches kw r \<longleftrightarrow> (\<forall>k\<in>set ks. map_of r k = map_of inst k)" .
  moreover have "matches kwargs r \<longleftrightarrow> map_of r k = Some v \<and> matches kw r"
    by (simp add: matches_def kw)
  ultimately show ?case using v by simp
qed

lemma remote_pk_dict_defined:
  "remote_pk_dict names inst = Inr kwargs \<Longrightarrow> k \<in> set names \<Longrightarrow> \<exists>v. map_of inst k = Some v"
proof (induction names arbitrary: kwargs)
  case Nil
  then show ?case by simp
next
  case (Cons a ks)
  from Cons.prems(1) obtain v kw where v: "map_of inst a = Some v"
    and r: "remote_pk_dict ks inst = Inr kw"
    by (rule remote_pk_dict_Cons)
  from Cons.prems(2) have "k = a \<or> k \<in> set ks" by simp
  then show ?case
  proof
    assume "k = a" with v show ?thesis by simp
  next
    assume "k \<in> set ks" from Cons.IH[OF r this] show ?thesis .
  qed
qed

lemma remote_pk_dict_nonempty:
  assumes "remote_pk_dict names inst = Inr kwargs" and "names \<noteq> []"
  shows "kwargs \<noteq> []"
proof -
  from assms(2) obtain k ks where "names = k # ks" by (cases names) auto
  with assms(1) have "remote_pk_dict (k # ks) inst = Inr kwargs" by simp
  then obtain v kw where "kwargs = (k, v) # kw" by (rule remote_pk_dict_Cons)
  then show ?thesis by simp
qed

lemma filter_replace:
  assumes "distinct (map f st)"
    and "\<forall>r\<in>set st. P r \<longrightarrow> f r = c"
    and "c \<in> f ` set st"
    and "P x"
  shows "filter P (map (\<lambda>r. if f r = c then x else r) st) = [x]"
  using assms
proof (induction st)
  case Nil
  then show ?case by simp
next
  case (Cons a st)
  show ?case
  proof (cases "f a = c")
    case True
    from Cons.prems(1) have "f a \<notin> f ` set st" by simp
    with True have notin: "\<forall>r\<in>set st. f r \<noteq> c" by (metis imageI)
    then have same: "map (\<lambda>r. if f r = c then x else r) st = st" by (simp add: map_idI)
    from notin Cons.prems(2) have "\<forall>r\<in>set st. \<not> P r" by auto
    then have "filter P st = []" by (simp add: filter_empty_conv)
    with True same Cons.prems(4) show ?thesis by simp
  next
    case False
    with Cons.prems(2) have na: "\<not> P a" by auto
    from False Cons.prems(3) have h3: "c \<in> f ` set st" by auto
    from Cons.prems(1) have h1: "distinct (map f st)" by simp
    from Cons.prems(2) have h2: "\<forall>r\<in>set st. P r \<longrightarrow> f r = c" by simp
    have "filter P (map (\<lambda>r. if f r = c then x else r) st) = [x]"
      by (rule Cons.IH[OF h1 h2 h3 Cons.prems(4)])
    with False na show ?thesis by simp
  qed
qed

lemma map_replace_keys:
  "f x = c \<Longrightarrow> map f (map (\<lambda>r. if f r = c then x else r) st) = map f st"
  by (induction st) simp_all

lemma next_pk_above:
  "r \<in> set st \<Longrightarrow> pk_of pk r = PInt i \<Longrightarrow> i < next_pk pk st"
proof (induction st)
  case Nil
  then show ?case by simp
next
  case (Cons a st)
  have step: "next_pk pk (a # st)
                = (case pk_of pk a of PInt j \<Rightarrow> max (j + 1) (next_pk pk st) | _ \<Rightarrow> next_pk pk st)"
    by (cases "pk_of pk a") (simp_all add: next_pk_def)
  from Cons.prems(1) have "r = a \<or> r \<in> set st" by simp
  then show ?case
  proof
    assume "r = a"
    with Cons.prems(2) step show ?thesis by simp
  next
    assume "r \<in> set st"
    from Cons.IH[OF this Cons.prems(2)] have "i < next_pk pk st" .
    with step show ?thesis by (cases "pk_of pk a") simp_all
  qed
qed

lemma next_pk_fresh: "PInt (next_pk pk st) \<notin> set (map (pk_of pk) st)"
proof
  assume "PInt (next_pk pk st) \<in> set (map (pk_of pk) st)"
  then obtain r where "r \<in> set st" and "pk_of pk r = PInt (next_pk pk st)" by auto
  then have "next_pk pk st < next_pk pk st" by (rule next_pk_above)
  then show False by simp
qed


subsection \<open>Reconciliation keeps the remote identity\<close>

lemma substitute_keys:
  assumes "substitute pk self old_instance = Inr r"
  shows "fst ` set r = insert pk (fst ` set self)"
proof -
  from assms obtain old_pk where
    loop: "substitute_loop (items old_instance) (setattr self pk old_pk) = Inr r"
    by (cases "getattr old_instance pk") (auto simp add: substitute_def)
  from substitute_loop_keys[OF loop] show ?thesis by (simp add: keys_setattr)
qed

lemma pk_of_defined: "pk_of pk r \<noteq> PNone \<Longrightarrow> map_of r pk = Some (pk_of pk r)"
  by (cases "map_of r pk") (simp_all add: pk_of_def)

lemma pk_of_key: "pk_of pk r \<noteq> PNone \<Longrightarrow> insert pk (fst ` set r) = fst ` set r"
proof -
  assume "pk_of pk r \<noteq> PNone"
  then have "map_of r pk = Some (pk_of pk r)" by (rule pk_of_defined)
  then have "(pk, pk_of pk r) \<in> set r" by (rule map_of_SomeD)
  then have "pk \<in> fst ` set r" by (rule image_eqI[rotated]) simp
  then show ?thesis by (rule insert_absorb)
qed

lemma substitute_matches:
  assumes sub: "substitute pk self old = Inr r"
    and rpd: "remote_pk_dict names self = Inr kwargs"
    and old: "matches kwargs old"
  shows "matches kwargs r"
proof -
  from remote_pk_dict_matches[OF rpd] old
  have o: "\<forall>k\<in>set names. map_of old k = map_of self k" by simp
  have "\<forall>k\<in>set names. map_of r k = map_of self k"
  proof
    fix k assume k: "k \<in> set names"
    from remote_pk_dict_defined[OF rpd k] obtain v where v: "map_of self k = Some v" ..
    with o k have ov: "map_of old k = Some v" by simp
    show "map_of r k = map_of self k"
    proof (cases "k = pk")
      case True
      with substitute_pk[OF sub] ov v show ?thesis by simp
    next
      case False
      from substitute_field[OF sub ov v False] v show ?thesis by simp
    qed
  qed
  with remote_pk_dict_matches[OF rpd] show ?thesis by simp
qed

lemma save_existing:
  assumes wf: "wf_store pk st"
    and only: "\<forall>x\<in>set st. matches kwargs x \<longrightarrow> pk_of pk x = pk_of pk r"
    and mem: "pk_of pk r \<in> set (map (pk_of pk) st)"
    and m: "matches kwargs r"
    and save: "save pk st r = (s', r')"
  shows "r' = r \<and> filter (matches kwargs) s' = [r] \<and> map (pk_of pk) s' = map (pk_of pk) st"
proof -
  from wf mem have nn: "pk_of pk r \<noteq> PNone" by (auto simp add: wf_store_def)
  with mem save have s': "s' = map (\<lambda>x. if pk_of pk x = pk_of pk r then r else x) st"
    and r': "r' = r"
    by (auto simp add: save_def)
  from wf have d: "distinct (map (pk_of pk) st)" by (simp add: wf_store_def)
  from mem have c: "pk_of pk r \<in> pk_of pk ` set st" by simp
  have "filter (matches kwargs) s' = [r]"
    unfolding s' by (rule filter_replace[OF d only c m])
  moreover have "map (pk_of pk) s' = map (pk_of pk) st"
    unfolding s' by (rule map_replace_keys) simp
  ultimately show ?thesis using r' by simp
qed

lemma save_new:
  assumes wf: "wf_store pk st"
    and none: "filter (matches kwargs) st = []"
    and rpd: "remote_pk_dict names inst = Inr kwargs"
    and ident: "pk \<in> set names \<longrightarrow> pk_of pk inst \<noteq> PNone"
    and save: "save pk st inst = (s', r')"
  shows "filter (matches kwargs) s' = [r'] \<and> pk_of pk r' \<noteq> PNone \<and> wf_store pk s'
           \<and> fst ` set r' = insert pk (fst ` set inst)"
proof -
  from remote_pk_dict_matches[OF rpd, of inst] have m: "matches kwargs inst" by simp
  from none have no: "\<forall>x\<in>set st. \<not> matches kwargs x" by (simp add: filter_empty_conv)
  show ?thesis
  proof (cases "pk_of pk inst = PNone")
    case True
    define n where "n = next_pk pk st"
    from True save have s': "s' = st @ [r']" and r': "r' = setattr inst pk (PInt n)"
      by (auto simp add: save_def n_def)
    from True ident have "pk \<notin> set names" by blast
    then have "\<forall>k\<in>set names. map_of r' k = map_of inst k"
      by (auto simp add: r' map_of_setattr)
    with remote_pk_dict_matches[OF rpd, of r'] have mr: "matches kwargs r'" by simp
    have p: "pk_of pk r' = PInt n" by (simp add: pk_of_def r' map_of_setattr)
    from next_pk_fresh[of pk st] have "PInt n \<notin> set (map (pk_of pk) st)" by (simp add: n_def)
    with wf p have "wf_store pk s'" by (simp add: wf_store_def s')
    moreover from none mr have "filter (matches kwargs) s' = [r']" by (simp add: s')
    moreover have "fst ` set r' = insert pk (fst ` set inst)" by (simp add: r' keys_setattr)
    ultimately show ?thesis using p by simp
  next
    case nn: False
    show ?thesis
    proof (cases "pk_of pk inst \<in> set (map (pk_of pk) st)")
      case True
      from no have only: "\<forall>x\<in>set st. matches kwargs x \<longrightarrow> pk_of pk x = pk_of pk inst" by simp
      from save_existing[OF wf only True m save]
      have r': "r' = inst" and f: "filter (matches kwargs) s' = [inst]"
        and k: "map (pk_of pk) s' = map (pk_of pk) st" by simp_all
      from wf k have "wf_store pk s'" by (simp add: wf_store_def)
      with r' f nn pk_of_key[OF nn] show ?thesis by simp
    next
      case False
      with nn save have s': "s' = st @ [inst]" and r': "r' = inst" by (auto simp add: save_def)
      from wf nn False have "wf_store pk s'" by (simp add: wf_store_def s')
      moreover from none m have "filter (matches kwargs) s' = [inst]" by (simp add: s')
      ultimately show ?thesis using r' nn pk_of_key[OF nn] by simp
    qed
  qed
qed

lemma save_found:
  assumes wf: "wf_store pk st"
    and one: "filter (matches kwargs) st = [old]"
    and rpd: "remote_pk_dict names inst = Inr kwargs"
    and sub: "substitute pk inst old = Inr r"
    and save: "save pk st r = (s', r')"
  shows "r' = r \<and> filter (matches kwargs) s' = [r'] \<and> pk_of pk r' = pk_of pk old
           \<and> pk_of pk r' \<noteq> PNone \<and> map (pk_of pk) s' = map (pk_of pk) st \<and> wf_store pk s'
           \<and> fst ` set r' = insert pk (fst ` set inst)"
proof -
  have "old \<in> set (filter (matches kwargs) st)" by (simp add: one)
  then have mem: "old \<in> set st" and mo: "matches kwargs old" by simp_all
  from substitute_pk[OF sub] have p: "pk_of pk r = pk_of pk old" by (simp add: pk_of_def)
  from mem p have c: "pk_of pk r \<in> set (map (pk_of pk) st)" by simp
  have only: "\<forall>x\<in>set st. matches kwargs x \<longrightarrow> pk_of pk x = pk_of pk r"
  proof (intro ballI impI)
    fix x assume "x \<in> set st" and "matches kwargs x"
    then have "x \<in> set (filter (matches kwargs) st)" by simp
    with one have "x = old" by simp
    with p show "pk_of pk x = pk_of pk r" by simp
  qed
  from substitute_matches[OF sub rpd mo] have m: "matches kwargs r" .
  from save_existing[OF wf only c m save]
  have r': "r' = r" and f: "filter (matches kwargs) s' = [r]"
    and k: "map (pk_of pk) s' = map (pk_of pk) st" by simp_all
  from wf k have w: "wf_store pk s'" by (simp add: wf_store_def)
  from wf c have "pk_of pk r \<noteq> PNone" by (auto simp add: wf_store_def)
  with r' f k w p substitute_keys[OF sub] show ?thesis by simp
qed


subsection \<open>One run, and a second one\<close>

lemma get_or_create_post:
  assumes wf: "wf_store pk st"
    and rpd: "remote_pk_dict names inst = Inr kwargs"
    and ne: "names \<noteq> []"
    and ident: "pk \<in> set names \<longrightarrow> pk_of pk inst \<noteq> PNone"
    and run: "get_or_create_from_instance pk names st inst = Inr (s', r')"
  shows "filter (matches kwargs) s' = [r'] \<and> pk_of pk r' \<noteq> PNone \<and> wf_store pk s'
           \<and> fst ` set r' = insert pk (fst ` set inst)"
proof -
  from remote_pk_dict_nonempty[OF rpd ne] have kne: "kwargs \<noteq> []" .
  show ?thesis
  proof (cases "objects_get_by st kwargs")
    case (Inl err)
    with run rpd kne have dne: "err = DoesNotExist" and save: "save pk st inst = (s', r')"
      by (auto simp add: get_or_create_from_instance_def split: if_splits)
    from Inl dne have "filter (matches kwargs) st = []"
      by (auto simp add: objects_get_by_def split: list.splits)
    from save_new[OF wf this rpd ident save] show ?thesis .
  next
    case (Inr old)
    then have one: "filter (matches kwargs) st = [old]"
      by (auto simp add: objects_get_by_def split: list.splits)
    from run rpd kne Inr obtain r where sub: "substitute pk inst old = Inr r"
      and save: "save pk st r = (s', r')"
      by (cases "substitute pk inst old") (auto simp add: get_or_create_from_instance_def)
    from save_found[OF wf one rpd sub save] show ?thesis by auto
  qed
qed

lemma get_or_create_found:
  assumes wf: "wf_store pk st"
    and rpd: "remote_pk_dict names inst = Inr kwargs"
    and ne: "names \<noteq> []"
    and one: "filter (matches kwargs) st = [old]"
    and keys: "fst ` set old \<subseteq> insert pk (fst ` set inst)"
  shows "\<exists>s' r'. get_or_create_from_instance pk names st inst = Inr (s', r')
           \<and> pk_of pk r' = pk_of pk old \<and> map (pk_of pk) s' = map (pk_of pk) st
           \<and> filter (matches kwargs) s' = [r']"
proof -
  from remote_pk_dict_nonempty[OF rpd ne] have kne: "kwargs \<noteq> []" .
  have og: "objects_get_by st kwargs = Inr old" by (simp add: objects_get_by_def one)
  have "old \<in> set (filter (matches kwargs) st)" by (simp add: one)
  then have "old \<in> set st" by simp
  then have "pk_of pk old \<in> pk_of pk ` set st" by (rule imageI)
  with wf have "pk_of pk old \<noteq> PNone" by (auto simp add: wf_store_def)
  then have "map_of old pk = Some (pk_of pk old)" by (rule pk_of_defined)
  from substitute_returns[OF this keys] obtain r where sub: "substitute pk inst old = Inr r" ..
  obtain s' r' where save: "save pk st r = (s', r')" by (cases "save pk st r")
  have run: "get_or_create_from_instance pk names st inst = Inr (s', r')"
    by (simp add: get_or_create_from_instance_def rpd kne og sub save)
  from save_found[OF wf one rpd sub save] run show ?thesis by auto
qed

text \<open>
  Claim C2.  Over a store with unique primary keys: when a first run of
  \<^verbatim>\<open>get_or_create_from_instance\<close> has returned a record, a second run with an instance
  of the same model that has the same values for the remote-identity fields returns
  too, its record has the primary key of the first record, the primary keys in the
  store are the same as before (no record is added), and exactly one record of the
  store carries that remote identity.  Where the primary key is itself a
  remote-identity field, the first instance has a value for it.
\<close>

theorem get_or_create_identity_stable:
  assumes wf: "wf_store pk st"
    and ne: "remote_pk \<noteq> []"
    and ident: "pk \<in> set remote_pk \<longrightarrow> pk_of pk i1 \<noteq> PNone"
    and run: "get_or_create_from_instance pk remote_pk st i1 = Inr (s1, r1)"
    and same: "remote_pk_dict remote_pk i2 = remote_pk_dict remote_pk i1"
    and attrs: "fst ` set i2 = fst ` set i1"
  shows "\<exists>s2 r2. get_or_create_from_instance pk remote_pk s1 i2 = Inr (s2, r2)
           \<and> pk_of pk r2 = pk_of pk r1 \<and> pk_of pk r1 \<noteq> PNone
           \<and> map (pk_of pk) s2 = map (pk_of pk) s1
           \<and> filter (same_remote remote_pk i2) s2 = [r2]"
proof -
  from run obtain kwargs where rpd1: "remote_pk_dict remote_pk i1 = Inr kwargs"
    by (cases "remote_pk_dict remote_pk i1") (simp_all add: get_or_create_from_instance_def)
  with same have rpd2: "remote_pk_dict remote_pk i2 = Inr kwargs" by simp
  from get_or_create_post[OF wf rpd1 ne ident run]
  have one: "filter (matches kwargs) s1 = [r1]" and nn: "pk_of pk r1 \<noteq> PNone"
    and wf1: "wf_store pk s1" and k: "fst ` set r1 = insert pk (fst ` set i1)"
    by simp_all
  from k attrs have keys: "fst ` set r1 \<subseteq> insert pk (fst ` set i2)" by simp
  have sr: "same_remote remote_pk i2 = matches kwargs"
    by (rule ext) (simp add: same_remote_def rpd2)
  from get_or_create_found[OF wf1 rpd2 ne one keys] nn show ?thesis
    unfolding sr by blast
qed

theorem get_or_create_identity_stable_witness:
  "get_or_create_from_instance ''pk'' [''id'']
      [[(''pk'', PInt 1), (''id'', PInt 5), (''name'', PStr ''Bob'')]]
      [(''pk'', PNone), (''id'', PInt 7), (''name'', PStr ''Ann'')]
     = Inr ([[(''pk'', PInt 1), (''id'', PInt 5), (''name'', PStr ''Bob'')],
             [(''pk'', PInt 2), (''id'', PInt 7), (''name'', PStr ''Ann'')]],
            [(''pk'', PInt 2), (''id'', PInt 7), (''name'', PStr ''Ann'')])
   \<and> (\<exists>s2 r2.
         get_or_create_from_instance ''pk'' [''id'']
           [[(''pk'', PInt 1), (''id'', PInt 5), (''name'', PStr ''Bob'')],
            [(''pk'', PInt 2), (''id'', PInt 7), (''name'', PStr ''Ann'')]]
           [(''pk'', PNone), (''id'', PInt 7), (''name'', PStr [])] = Inr (s2, r2)
         \<and> pk_of ''pk'' r2 = pk_of ''pk'' [(''pk'', PInt 2), (''id'', PInt 7), (''name'', PStr ''Ann'')]
         \<and> pk_of ''pk'' [(''pk'', PInt 2), (''id'', PInt 7), (''name'', PStr ''Ann'')] \<noteq> PNone
         \<and> map (pk_of ''pk'') s2
             = map (pk_of ''pk'')
                 [[(''pk'', PInt 1), (''id'', PInt 5), (''name'', PStr ''Bob'')],
                  [(''pk'', PInt 2), (''id'', PInt 7), (''name'', PStr ''Ann'')]]
         \<and> filter (same_remote [''id''] [(''pk'', PNone), (''id'', PInt 7), (''name'', PStr [])]) s2
             = [r2])"
proof -
  let ?st = "[[(''pk'', PInt 1), (''id'', PInt 5), (''name'', PStr ''Bob'')]]"
  let ?i1 = "[(''pk'', PNone), (''id'', PInt 7), (''name'', PStr ''Ann'')]"
  let ?r1 = "[(''pk'', PInt 2), (''id'', PInt 7), (''name'', PStr ''Ann'')]"
  let ?s1 = "[[(''pk'', PInt 1), (''id'', PInt 5), (''name'', PStr ''Bob'')], ?r1]"
  let ?i2 = "[(''pk'', PNone), (''id'', PInt 7), (''name'', PStr [])]"
  have wf: "wf_store ''pk'' ?st" by (simp add: wf_store_def pk_of_def)
  have ne: "[''id''] \<noteq> []" by simp
  have ident: "''pk'' \<in> set [''id''] \<longrightarrow> pk_of ''pk'' ?i1 \<noteq> PNone" by simp
  have rpd: "remote_pk_dict [''id''] ?i1 = Inr [(''id'', PInt 7)]" by (simp add: getattr_def)
  have og: "objects_get_by ?st [(''id'', PInt 7)] = Inl DoesNotExist"
    by (simp add: objects_get_by_def matches_def)
  have sv: "save ''pk'' ?st ?i1 = (?s1, ?r1)"
    by (simp add: save_def pk_of_def next_pk_def setattr_def)
  have run: "get_or_create_from_instance ''pk'' [''id''] ?st ?i1 = Inr (?s1, ?r1)"
    by (simp add: get_or_create_from_instance_def rpd og sv del: remote_pk_dict.simps)
  have same: "remote_pk_dict [''id''] ?i2 = remote_pk_dict [''id''] ?i1"
    by (simp add: getattr_def)
  have attrs: "fst ` set ?i2 = fst ` set ?i1" by simp
  note second = get_or_create_identity_stable[OF wf ne ident run same attrs]
  from run second show ?thesis by (rule conjI)
qed

end
